theory Spec2Isabelle
  imports Complex_Main
begin

unbundle bit_operations_syntax

section \<open>The constants and errors of the messaging library\<close>

text \<open>
  Modelled from the spec: the constants that \<^verbatim>\<open>core.pyx\<close> takes from
  \<^verbatim>\<open>from zmq import *\<close>, which the sources do not hold: the no-block flag, the bits
  of the event mask, the two socket options, the retry error code and the not-supported
  error code. They are fixed at the values of libzmq's header (and of Linux for the two
  error numbers).
\<close>

definition NOBLOCK :: int where "NOBLOCK = 1"
definition POLLIN :: int where "POLLIN = 1"
definition POLLOUT :: int where "POLLOUT = 2"
definition POLLERR :: int where "POLLERR = 4"
definition FD :: int where "FD = 14"
definition EVENTS :: int where "EVENTS = 15"
definition EAGAIN :: int where "EAGAIN = 11"

text \<open>
  Modelled from the spec: the library's error type, \<^verbatim>\<open>ZMQError(errno, msg)\<close>, with
  its numeric code and its message (\<open>None\<close> when the constructor is left to look the
  message up). The native calls raise no other error.
\<close>

datatype zmq_error = ZMQError (errno: int) (strerror: "string option")

section \<open>The socket\<close>

subsection \<open>State\<close>

text \<open>
  Modelled from the spec: the scheduler's \<^verbatim>\<open>AsyncResult\<close>, a cell that is pending,
  holds a value (\<^verbatim>\<open>set()\<close> stores \<^verbatim>\<open>None\<close>) or holds an exception, and on which a
  task waits until it is resolved. The cells live in a store, a list addressed by
  position, so that \<^verbatim>\<open>self.__writable = AsyncResult()\<close> is the allocation of a new
  cell and not a mutation of the old one.
\<close>

datatype cell = Pending | Value | Exception zmq_error

text \<open>
  Modelled from the spec: the scheduler's watcher on the socket's descriptor. gevent 1.0
  has \<^verbatim>\<open>loop.io(fd, 1)\<close> with \<^verbatim>\<open>start\<close>/\<^verbatim>\<open>stop\<close>; older versions have
  \<^verbatim>\<open>read_event\<close>, which has only \<^verbatim>\<open>cancel\<close>.
\<close>

datatype gevent_api = Gevent1 | Gevent0

record watcher =
  api :: gevent_api
  watched_fd :: int
  active :: bool

text \<open>The calls a socket makes on the native socket, the scheduler's cells and its watcher, in order.\<close>

datatype effect =
    New nat
  | Get nat cell
  | NativeSend string int bool bool
  | NativeRecv int bool bool
  | NativeGetsockopt int
  | NativeClose
  | WatcherStart
  | WatcherStop
  | WatcherCancel

record sock =
  closed_flag :: bool
  heap :: "cell list"
  readable :: nat
  writable :: nat
  state_event :: "watcher option"
  trace :: "effect list"

definition do_effect :: "effect \<Rightarrow> sock \<Rightarrow> sock" where
  "do_effect e s = s\<lparr>trace := trace s @ [e]\<rparr>"

subsection \<open>The scheduler's cell\<close>

text \<open>\<^verbatim>\<open>AsyncResult()\<close>: a new pending cell, at an address no cell had before.\<close>

definition AsyncResult_new :: "sock \<Rightarrow> nat \<times> sock" where
  "AsyncResult_new s =
     (length (heap s), do_effect (New (length (heap s))) (s\<lparr>heap := heap s @ [Pending]\<rparr>))"

text \<open>\<^verbatim>\<open>cell.set()\<close> and \<^verbatim>\<open>cell.set_exception(exc)\<close>.\<close>

definition AsyncResult_set :: "nat \<Rightarrow> sock \<Rightarrow> sock" where
  "AsyncResult_set a s = s\<lparr>heap := (heap s)[a := Value]\<rparr>"

definition AsyncResult_set_exception :: "nat \<Rightarrow> zmq_error \<Rightarrow> sock \<Rightarrow> sock" where
  "AsyncResult_set_exception a exc s = s\<lparr>heap := (heap s)[a := Exception exc]\<rparr>"

subsection \<open>The readiness-change handler and the notification\<close>

text \<open>
  \<^verbatim>\<open>__state_changed\<close> (lines 89-105). The second argument is what
  \<^verbatim>\<open>self.__getsockopt(EVENTS)\<close> answers if it is called: a \<^verbatim>\<open>ZMQError\<close> or the
  event mask.
\<close>

definition state_changed :: "sock \<Rightarrow> zmq_error + int \<Rightarrow> sock" where
  "state_changed s q =
     (if closed_flag s then
        AsyncResult_set (readable s) (AsyncResult_set (writable s) s)
      else
        (let s1 = do_effect (NativeGetsockopt EVENTS) s in
         case q of
           Inl exc \<Rightarrow>
             AsyncResult_set_exception (readable s1) exc
               (AsyncResult_set_exception (writable s1) exc s1)
         | Inr events \<Rightarrow>
             (let s2 = (if events AND POLLOUT \<noteq> 0 then AsyncResult_set (writable s1) s1 else s1)
              in if events AND POLLIN \<noteq> 0 then AsyncResult_set (readable s2) s2 else s2)))"

text \<open>\<^verbatim>\<open>__notify_waiters\<close> (lines 107-112).\<close>

definition notify_waiters :: "sock \<Rightarrow> sock" where
  "notify_waiters s = AsyncResult_set (readable s) (AsyncResult_set (writable s) s)"

subsection \<open>Waiting\<close>

text \<open>
  While a task is suspended in \<^verbatim>\<open>cell.get()\<close> the scheduler runs other things. Those
  that touch this socket's cells are the watcher's callback (with the answer of the
  event-mask query) and another task's call that ends in \<^verbatim>\<open>__notify_waiters\<close>
  (\<^verbatim>\<open>getsockopt\<close>, for one). The callback is \<^verbatim>\<open>__state_changed\<close>, bound through
  \<^verbatim>\<open>create_weakmethod\<close>; the socket is alive while a task waits in one of its
  methods, so the call reaches it.
\<close>

datatype sched_event = StateChanged "zmq_error + int" | Notified

fun deliver :: "sock \<Rightarrow> sched_event \<Rightarrow> sock" where
  "deliver s (StateChanged q) = state_changed s q"
| "deliver s Notified = notify_waiters s"

datatype wait_result = Woken | WaitRaised zmq_error | Blocked

text \<open>
  \<^verbatim>\<open>cell.get()\<close>, given the events the scheduler delivers while the task is suspended:
  it returns once the cell holds a value, raises once it holds an exception, and stays
  suspended (\<open>Blocked\<close>) when the events end with the cell still pending.
\<close>

fun await :: "sock \<Rightarrow> nat \<Rightarrow> sched_event list \<Rightarrow> wait_result \<times> sock" where
  "await s a [] =
     (case heap s ! a of
        Value \<Rightarrow> (Woken, s)
      | Exception exc \<Rightarrow> (WaitRaised exc, s)
      | Pending \<Rightarrow> (Blocked, s))"
| "await s a (ev # evs) =
     (case heap s ! a of
        Value \<Rightarrow> (Woken, s)
      | Exception exc \<Rightarrow> (WaitRaised exc, s)
      | Pending \<Rightarrow> await (deliver s ev) a evs)"

definition AsyncResult_get :: "sock \<Rightarrow> nat \<Rightarrow> sched_event list \<Rightarrow> wait_result \<times> sock" where
  "AsyncResult_get s a evs = await (do_effect (Get a (heap s ! a)) s) a evs"

text \<open>\<^verbatim>\<open>_wait_write\<close> and \<^verbatim>\<open>_wait_read\<close> (lines 114-120).\<close>

definition wait_write :: "sock \<Rightarrow> sched_event list \<Rightarrow> wait_result \<times> sock" where
  "wait_write s evs =
     (let (a, s1) = AsyncResult_new s;
          s2 = s1\<lparr>writable := a\<rparr>
      in AsyncResult_get s2 (writable s2) evs)"

definition wait_read :: "sock \<Rightarrow> sched_event list \<Rightarrow> wait_result \<times> sock" where
  "wait_read s evs =
     (let (a, s1) = AsyncResult_new s;
          s2 = s1\<lparr>readable := a\<rparr>
      in AsyncResult_get s2 (readable s2) evs)"

subsection \<open>Sending and receiving\<close>

text \<open>
  A call ends by returning, by raising, or with its task suspended in a wait that
  nothing ends. The native calls and the scheduler are given as a script: one round
  per native attempt, holding the attempt's outcome and the events delivered during the
  wait that follows it. A script that ends while the loop is still running gives \<open>None\<close>.
\<close>

datatype 'r outcome = Returned 'r | Raised zmq_error | Suspended

type_synonym 'r round = "(zmq_error + 'r) \<times> sched_event list"

text \<open>The \<^verbatim>\<open>while True\<close> loop of \<^verbatim>\<open>__send\<close> (lines 134-144).\<close>

fun send_loop ::
  "sock \<Rightarrow> string \<Rightarrow> int \<Rightarrow> bool \<Rightarrow> bool \<Rightarrow> 'r round list \<Rightarrow> 'r outcome option \<times> sock" where
  "send_loop s data flags copy track [] = (None, s)"
| "send_loop s data flags copy track ((r, evs) # rest) =
     (let s1 = do_effect (NativeSend data flags copy track) s in
      case r of
        Inr v \<Rightarrow> (Some (Returned v), s1)
      | Inl e \<Rightarrow>
          if errno e \<noteq> EAGAIN then (Some (Raised e), s1)
          else (case wait_write (notify_waiters s1) evs of
                  (Woken, s2) \<Rightarrow> send_loop s2 data flags copy track rest
                | (WaitRaised exc, s2) \<Rightarrow> (Some (Raised exc), s2)
                | (Blocked, s2) \<Rightarrow> (Some Suspended, s2)))"

text \<open>\<^verbatim>\<open>__send\<close> (lines 128-144).\<close>

definition dunder_send ::
  "sock \<Rightarrow> string \<Rightarrow> int \<Rightarrow> bool \<Rightarrow> bool \<Rightarrow> 'r round list \<Rightarrow> 'r outcome option \<times> sock" where
  "dunder_send s data flags copy track script =
     (if flags AND NOBLOCK \<noteq> 0 then
        (case script of
           [] \<Rightarrow> (None, s)
         | (r, evs) # rest \<Rightarrow>
             (Some (case r of Inr v \<Rightarrow> Returned v | Inl e \<Rightarrow> Raised e),
              do_effect (NativeSend data flags copy track) s))
      else send_loop s data (flags OR NOBLOCK) copy track script)"

text \<open>
  \<^verbatim>\<open>send\<close> (lines 122-126): the \<^verbatim>\<open>finally\<close> clause runs when \<^verbatim>\<open>__send\<close> returns or
  raises, not while its task is suspended.
\<close>

definition finally_notify :: "'r outcome option \<times> sock \<Rightarrow> 'r outcome option \<times> sock" where
  "finally_notify rs =
     (case rs of
        (Some (Returned v), s) \<Rightarrow> (Some (Returned v), notify_waiters s)
      | (Some (Raised e), s) \<Rightarrow> (Some (Raised e), notify_waiters s)
      | (Some Suspended, s) \<Rightarrow> (Some Suspended, s)
      | (None, s) \<Rightarrow> (None, s))"

definition send ::
  "sock \<Rightarrow> string \<Rightarrow> int \<Rightarrow> bool \<Rightarrow> bool \<Rightarrow> 'r round list \<Rightarrow> 'r outcome option \<times> sock" where
  "send s data flags copy track script =
     finally_notify (dunder_send s data flags copy track script)"

text \<open>The loop of \<^verbatim>\<open>__recv\<close> (lines 156-163), \<^verbatim>\<open>__recv\<close> (lines 152-163) and \<^verbatim>\<open>recv\<close> (lines 146-150).\<close>

fun recv_loop ::
  "sock \<Rightarrow> int \<Rightarrow> bool \<Rightarrow> bool \<Rightarrow> 'r round list \<Rightarrow> 'r outcome option \<times> sock" where
  "recv_loop s flags copy track [] = (None, s)"
| "recv_loop s flags copy track ((r, evs) # rest) =
     (let s1 = do_effect (NativeRecv flags copy track) s in
      case r of
        Inr v \<Rightarrow> (Some (Returned v), s1)
      | Inl e \<Rightarrow>
          if errno e \<noteq> EAGAIN then (Some (Raised e), s1)
          else (case wait_read (notify_waiters s1) evs of
                  (Woken, s2) \<Rightarrow> recv_loop s2 flags copy track rest
                | (WaitRaised exc, s2) \<Rightarrow> (Some (Raised exc), s2)
                | (Blocked, s2) \<Rightarrow> (Some Suspended, s2)))"

definition dunder_recv ::
  "sock \<Rightarrow> int \<Rightarrow> bool \<Rightarrow> bool \<Rightarrow> 'r round list \<Rightarrow> 'r outcome option \<times> sock" where
  "dunder_recv s flags copy track script =
     (if flags AND NOBLOCK \<noteq> 0 then
        (case script of
           [] \<Rightarrow> (None, s)
         | (r, evs) # rest \<Rightarrow>
             (Some (case r of Inr v \<Rightarrow> Returned v | Inl e \<Rightarrow> Raised e),
              do_effect (NativeRecv flags copy track) s))
      else recv_loop s (flags OR NOBLOCK) copy track script)"

definition recv ::
  "sock \<Rightarrow> int \<Rightarrow> bool \<Rightarrow> bool \<Rightarrow> 'r round list \<Rightarrow> 'r outcome option \<times> sock" where
  "recv s flags copy track script =
     finally_notify (dunder_recv s flags copy track script)"

text \<open>
  \<^verbatim>\<open>__getsockopt\<close> and \<^verbatim>\<open>getsockopt\<close> (lines 165-172); the second argument is the
  native call's outcome.
\<close>

definition dunder_getsockopt :: "sock \<Rightarrow> int \<Rightarrow> zmq_error + 'v \<Rightarrow> (zmq_error + 'v) \<times> sock" where
  "dunder_getsockopt s opt q = (q, do_effect (NativeGetsockopt opt) s)"

definition getsockopt :: "sock \<Rightarrow> int \<Rightarrow> zmq_error + 'v \<Rightarrow> (zmq_error + 'v) \<times> sock" where
  "getsockopt s opt q = (let (r, s1) = dunder_getsockopt s opt q in (r, notify_waiters s1))"

subsection \<open>Construction and close\<close>

text \<open>
  \<^verbatim>\<open>__setup_events\<close> (lines 77-87), run by \<^verbatim>\<open>__init__\<close> on the new native socket, whose
  creation and whose descriptor \<open>fd\<close> are taken as given. With gevent 1.0 the watcher is
  made and started; with an older gevent \<^verbatim>\<open>get_hub().loop\<close> raises \<^verbatim>\<open>AttributeError\<close>
  before the descriptor is queried, and \<^verbatim>\<open>read_event\<close> is used, which starts its watcher
  itself.
\<close>

definition setup_events :: "gevent_api \<Rightarrow> int \<Rightarrow> sock \<Rightarrow> sock" where
  "setup_events g fd s =
     (let (r, s1) = AsyncResult_new s;
          s2 = s1\<lparr>readable := r\<rparr>;
          (w, s3) = AsyncResult_new s2;
          s4 = s3\<lparr>writable := w\<rparr>
      in case g of
           Gevent1 \<Rightarrow>
             do_effect WatcherStart
               ((do_effect (NativeGetsockopt FD) s4)
                  \<lparr>state_event := Some \<lparr>api = Gevent1, watched_fd = fd, active = True\<rparr>\<rparr>)
         | Gevent0 \<Rightarrow>
             do_effect WatcherStart
               ((do_effect (NativeGetsockopt FD) s4)
                  \<lparr>state_event := Some \<lparr>api = Gevent0, watched_fd = fd, active = True\<rparr>\<rparr>))"

definition Socket_init :: "gevent_api \<Rightarrow> int \<Rightarrow> sock" where
  "Socket_init g fd =
     setup_events g fd
       \<lparr>closed_flag = False, heap = [], readable = 0, writable = 0,
        state_event = None, trace = []\<rparr>"

text \<open>
  \<^verbatim>\<open>close\<close> (lines 66-75). \<^verbatim>\<open>stop()\<close> on a watcher of the older gevent raises
  \<^verbatim>\<open>AttributeError\<close>, and \<^verbatim>\<open>cancel()\<close> is called instead. The native close follows in
  every case.
\<close>

definition watcher_teardown :: "watcher \<Rightarrow> sock \<Rightarrow> sock" where
  "watcher_teardown w s =
     (case api w of
        Gevent1 \<Rightarrow> do_effect WatcherStop (s\<lparr>state_event := Some (w\<lparr>active := False\<rparr>)\<rparr>)
      | Gevent0 \<Rightarrow> do_effect WatcherCancel (s\<lparr>state_event := Some (w\<lparr>active := False\<rparr>)\<rparr>))"

definition native_close :: "sock \<Rightarrow> sock" where
  "native_close s = do_effect NativeClose (s\<lparr>closed_flag := True\<rparr>)"

definition close :: "sock \<Rightarrow> sock" where
  "close s =
     native_close
       (if \<not> closed_flag s then
          (case state_event s of
             Some w \<Rightarrow> watcher_teardown w s
           | None \<Rightarrow> s)
        else s)"

section \<open>The context\<close>

text \<open>
  \<^verbatim>\<open>_Context.socket\<close> (lines 29-38). A socket object is of the class \<^verbatim>\<open>_Socket\<close> of
  this module or of the library's own class; the object records the context and the
  type it was made with. The gevent version and the new socket's descriptor are given.
\<close>

record Context =
  context_id :: nat
  context_closed :: bool

datatype socket_object =
    Green_Socket Context int sock
  | Original_Socket Context int


section \<open>The poller\<close>

subsection \<open>State\<close>

text \<open>
  What can be registered: a socket of this module (with its identity and with what its
  \<^verbatim>\<open>getsockopt(FD)\<close> answers), an integer, an object with a \<^verbatim>\<open>fileno\<close> method (with
  the integer \<^verbatim>\<open>int(socket.fileno())\<close> gives, \<open>None\<close> when that raises), or anything
  else.
\<close>

datatype item =
    GreenSocket nat "zmq_error + int"
  | IntFd int
  | FilenoObj "int option"
  | Unsupported

datatype exn =
    ZMQ zmq_error
  | Timeout nat
  | ValueError
  | TypeError
  | UnboundLocalError

datatype peffect =
    TimerStart nat rat
  | TimerCancel nat
  | NativePoll int
  | Select "int list" "int list" "int list"
  | SocketGetsockopt nat int

record poller =
  sockets :: "(item \<times> int) list"
  plog :: "peffect list"

definition p_effect :: "peffect \<Rightarrow> poller \<Rightarrow> poller" where
  "p_effect e p = p\<lparr>plog := plog p @ [e]\<rparr>"

subsection \<open>Descriptors\<close>

text \<open>
  The body of the loop of \<^verbatim>\<open>_get_descriptors\<close> (lines 189-199): the descriptor of one
  registered item. The call of \<^verbatim>\<open>socket.getsockopt(FD)\<close> is recorded; what it does to
  that socket's cells is \<open>getsockopt\<close> above.
\<close>

fun descriptor_of :: "item \<Rightarrow> poller \<Rightarrow> (exn + int) \<times> poller" where
  "descriptor_of (GreenSocket i q) p =
     (case q of Inl e \<Rightarrow> Inl (ZMQ e) | Inr fd \<Rightarrow> Inr fd, p_effect (SocketGetsockopt i FD) p)"
| "descriptor_of (IntFd fd) p = (Inr fd, p)"
| "descriptor_of (FilenoObj (Some fd)) p = (Inr fd, p)"
| "descriptor_of (FilenoObj None) p = (Inl ValueError, p)"
| "descriptor_of Unsupported p = (Inl TypeError, p)"

type_synonym fdlists = "int list \<times> int list \<times> int list"

text \<open>\<^verbatim>\<open>_get_descriptors\<close> (lines 181-205).\<close>

fun get_descriptors_loop ::
  "(item \<times> int) list \<Rightarrow> fdlists \<Rightarrow> poller \<Rightarrow> (exn + fdlists) \<times> poller" where
  "get_descriptors_loop [] fds p = (Inr fds, p)"
| "get_descriptors_loop ((item, flags) # rest) (rlist, wlist, xlist) p =
     (case descriptor_of item p of
        (Inl ex, p1) \<Rightarrow> (Inl ex, p1)
      | (Inr fd, p1) \<Rightarrow>
          get_descriptors_loop rest
            (if flags AND POLLIN \<noteq> 0 then rlist @ [fd] else rlist,
             if flags AND POLLOUT \<noteq> 0 then wlist @ [fd] else wlist,
             if flags AND POLLERR \<noteq> 0 then xlist @ [fd] else xlist) p1)"

definition get_descriptors :: "poller \<Rightarrow> (exn + fdlists) \<times> poller" where
  "get_descriptors p = get_descriptors_loop (sockets p) ([], [], []) p"

subsection \<open>Polling\<close>

text \<open>
  The timeout argument is \<^verbatim>\<open>None\<close>, an integer or a (finite) float, which is taken at
  its exact value. \<^verbatim>\<open>int(x)\<close> truncates towards zero.
\<close>

datatype pynum = PyInt int | PyFloat rat

fun py_int :: "pynum \<Rightarrow> int" where
  "py_int (PyInt n) = n"
| "py_int (PyFloat x) = (if 0 \<le> x then \<lfloor>x\<rfloor> else \<lceil>x\<rceil>)"

text \<open>Lines 213-218 of \<^verbatim>\<open>poll\<close>.\<close>

definition normalize_timeout :: "pynum option \<Rightarrow> int" where
  "normalize_timeout timeout =
     (let timeout1 = (case timeout of None \<Rightarrow> PyInt (- 1) | Some t \<Rightarrow> t);
          timeout2 = py_int timeout1
      in if timeout2 < 0 then - 1 else timeout2)"

text \<open>
  One round of the loop is given by what the native \<^verbatim>\<open>poll(0)\<close> answers and by how the
  wait in \<^verbatim>\<open>gevent.select.select\<close> ends, should the loop reach it: some descriptor is
  ready, the wait fails with an error of the operating system, or a timer of the
  scheduler raises its \<^verbatim>\<open>Timeout\<close> in this task.
\<close>

datatype select_outcome = Ready | SelectError int string | TimeoutSignal nat

type_synonym events = "(item \<times> int) list"

type_synonym poll_round = "(zmq_error + events) \<times> select_outcome"

text \<open>The \<^verbatim>\<open>while True\<close> loop of \<^verbatim>\<open>poll\<close> (lines 229-241).\<close>

fun poll_loop ::
  "poller \<Rightarrow> int \<Rightarrow> fdlists option \<Rightarrow> poll_round list \<Rightarrow> (exn + events) option \<times> poller" where
  "poll_loop p timeout fds [] = (None, p)"
| "poll_loop p timeout fds ((pr, sel) # rest) =
     (let p1 = p_effect (NativePoll 0) p in
      case pr of
        Inl e \<Rightarrow> (Some (Inl (ZMQ e)), p1)
      | Inr events \<Rightarrow>
          if events \<noteq> [] \<or> timeout = 0 then (Some (Inr events), p1)
          else
            (case (case fds of
                     Some (rlist, wlist, xlist) \<Rightarrow>
                       if rlist = [] \<and> wlist = [] \<and> xlist = [] then get_descriptors p1
                       else (Inr (rlist, wlist, xlist), p1)
                   | None \<Rightarrow> get_descriptors p1) of
               (Inl ex, p2) \<Rightarrow> (Some (Inl ex), p2)
             | (Inr (rlist, wlist, xlist), p2) \<Rightarrow>
                 (let p3 = p_effect (Select rlist wlist xlist) p2 in
                  case sel of
                    Ready \<Rightarrow> poll_loop p3 timeout (Some (rlist, wlist, xlist)) rest
                  | SelectError n msg \<Rightarrow> (Some (Inl (ZMQ (ZMQError n (Some msg)))), p3)
                  | TimeoutSignal t \<Rightarrow> (Some (Inl (Timeout t)), p3))))"

text \<open>
  \<^verbatim>\<open>poll\<close> (lines 207-249); \<open>tout\<close> is the identity of the timer that
  \<^verbatim>\<open>gevent.Timeout.start_new\<close> makes, if it is called. The name \<^verbatim>\<open>tout\<close> is bound
  only when the timeout is positive, so the comparison \<^verbatim>\<open>t is not tout\<close> raises
  \<^verbatim>\<open>UnboundLocalError\<close> otherwise.
\<close>

definition poll ::
  "poller \<Rightarrow> pynum option \<Rightarrow> nat \<Rightarrow> poll_round list \<Rightarrow> (exn + events) option \<times> poller" where
  "poll p timeout0 tout script =
     (let timeout = normalize_timeout timeout0;
          p1 = (if timeout > 0 then p_effect (TimerStart tout (of_int timeout / 1000)) p else p);
          (r, p2) = poll_loop p1 timeout None script
      in case r of
           None \<Rightarrow> (None, p2)
         | Some res \<Rightarrow>
             (Some (case res of
                      Inl (Timeout t) \<Rightarrow>
                        if timeout > 0 then (if t \<noteq> tout then Inl (Timeout t) else Inr [])
                        else Inl UnboundLocalError
                    | _ \<Rightarrow> res),
              if timeout > 0 then p_effect (TimerCancel tout) p2 else p2))"

section \<open>Vocabulary of the properties\<close>

text \<open>
  The two cell references of a socket point into the store, at different cells. A
  constructed socket is so, and every operation keeps it so.
\<close>

definition wf_sock :: "sock \<Rightarrow> bool" where
  "wf_sock s \<longleftrightarrow>
     readable s < length (heap s) \<and> writable s < length (heap s) \<and> readable s \<noteq> writable s"

text \<open>
  What one scheduler event does to the cell of a direction (given by its bit of the event
  mask) on a socket whose closed flag is \<open>c\<close>: the value or exception it stores, or
  \<open>Pending\<close> when it leaves the cell alone. \<open>first_resolution\<close> is the first
  store made by a sequence of events.
\<close>

fun resolution :: "bool \<Rightarrow> int \<Rightarrow> sched_event \<Rightarrow> cell" where
  "resolution c b Notified = Value"
| "resolution c b (StateChanged q) =
     (if c then Value
      else case q of
             Inl exc \<Rightarrow> Exception exc
           | Inr events \<Rightarrow> if events AND b \<noteq> 0 then Value else Pending)"

fun first_resolution :: "bool \<Rightarrow> int \<Rightarrow> sched_event list \<Rightarrow> cell" where
  "first_resolution c b [] = Pending"
| "first_resolution c b (ev # evs) =
     (case resolution c b ev of
        Pending \<Rightarrow> first_resolution c b evs
      | Value \<Rightarrow> Value
      | Exception exc \<Rightarrow> Exception exc)"

fun wait_result_of :: "cell \<Rightarrow> wait_result" where
  "wait_result_of Pending = Blocked"
| "wait_result_of Value = Woken"
| "wait_result_of (Exception exc) = WaitRaised exc"

text \<open>
  The event-mask queries made by the events that a wait on a pending cell consumes.
\<close>

fun queries :: "bool \<Rightarrow> int \<Rightarrow> sched_event list \<Rightarrow> effect list" where
  "queries c b [] = []"
| "queries c b (ev # evs) =
     (case ev of StateChanged q \<Rightarrow> (if c then [] else [NativeGetsockopt EVENTS]) | Notified \<Rightarrow> [])
     @ (case resolution c b ev of Pending \<Rightarrow> queries c b evs | _ \<Rightarrow> [])"

text \<open>
  A trace in which every \<^verbatim>\<open>get()\<close> comes right after the allocation of the cell it
  waits on, finds that cell pending, and is on a cell at an address from \<open>n\<close> on;
  \<open>prev\<close> is the call before the trace.
\<close>

fun waits_on_fresh :: "nat \<Rightarrow> effect option \<Rightarrow> effect list \<Rightarrow> bool" where
  "waits_on_fresh n prev [] = True"
| "waits_on_fresh n prev (e # es) =
     ((case e of Get a c \<Rightarrow> prev = Some (New a) \<and> c = Pending \<and> n \<le> a | _ \<Rightarrow> True)
      \<and> waits_on_fresh n (Some e) es)"

text \<open>
  The loop's test of a native outcome (\<^verbatim>\<open>e.errno != EAGAIN\<close>), and the outcome of
  the call when the native attempt ends it.
\<close>

definition retry :: "zmq_error + 'r \<Rightarrow> bool" where
  "retry r = (case r of Inl e \<Rightarrow> errno e = EAGAIN | Inr v \<Rightarrow> False)"



text \<open>
  The timer calls in a poller's log, and a script of \<open>n\<close> rounds in which the native
  poll finds nothing and the wait ends because some descriptor is ready.
\<close>

fun is_timer :: "peffect \<Rightarrow> bool" where
  "is_timer (TimerStart t d) = True"
| "is_timer (TimerCancel t) = True"
| "is_timer e = False"

definition timer_events :: "peffect list \<Rightarrow> peffect list" where
  "timer_events es = filter is_timer es"

definition nothing_ready :: "nat \<Rightarrow> poll_round list" where
  "nothing_ready n = replicate n (Inr [], Ready)"

text \<open>
  For an event mask: a cell that was pending in \<open>s\<close> and is resolved in \<open>s'\<close> is of
  a direction whose bit is set in the mask.
\<close>

definition resolved_only_if_ready :: "int \<Rightarrow> sock \<Rightarrow> sock \<Rightarrow> bool" where
  "resolved_only_if_ready events s s' \<longleftrightarrow>
     (heap s ! readable s = Pending \<and> heap s' ! readable s \<noteq> Pending \<longrightarrow> events AND POLLIN \<noteq> 0)
     \<and> (heap s ! writable s = Pending \<and> heap s' ! writable s \<noteq> Pending \<longrightarrow> events AND POLLOUT \<noteq> 0)"

section \<open>Auxiliary facts\<close>

lemma Socket_init_wf: "wf_sock (Socket_init g fd)"
  by (cases g) (simp_all add: wf_sock_def Socket_init_def setup_events_def AsyncResult_new_def do_effect_def)

lemma deliver_frame:
  "closed_flag (deliver s ev) = closed_flag s"
  "readable (deliver s ev) = readable s"
  "writable (deliver s ev) = writable s"
  "state_event (deliver s ev) = state_event s"
  "length (heap (deliver s ev)) = length (heap s)"
  by (cases ev; cases "case ev of StateChanged q \<Rightarrow> q";
      simp add: state_changed_def notify_waiters_def AsyncResult_set_def
        AsyncResult_set_exception_def do_effect_def Let_def)+

lemma deliver_wf: "wf_sock (deliver s ev) = wf_sock s"
  by (simp add: wf_sock_def deliver_frame)

lemma deliver_trace:
  "trace (deliver s ev) =
     trace s @ (case ev of StateChanged q \<Rightarrow> (if closed_flag s then [] else [NativeGetsockopt EVENTS])
                | Notified \<Rightarrow> [])"
  by (cases ev; cases "case ev of StateChanged q \<Rightarrow> q";
      simp add: state_changed_def notify_waiters_def AsyncResult_set_def
        AsyncResult_set_exception_def do_effect_def Let_def)

lemma deliver_writable:
  "wf_sock s \<Longrightarrow> heap (deliver s ev) ! writable s =
     (case resolution (closed_flag s) POLLOUT ev of
        Pending \<Rightarrow> heap s ! writable s | Value \<Rightarrow> Value | Exception exc \<Rightarrow> Exception exc)"
  by (cases ev; cases "case ev of StateChanged q \<Rightarrow> q";
      simp add: wf_sock_def state_changed_def notify_waiters_def AsyncResult_set_def
        AsyncResult_set_exception_def do_effect_def Let_def)

lemma deliver_readable:
  "wf_sock s \<Longrightarrow> heap (deliver s ev) ! readable s =
     (case resolution (closed_flag s) POLLIN ev of
        Pending \<Rightarrow> heap s ! readable s | Value \<Rightarrow> Value | Exception exc \<Rightarrow> Exception exc)"
  by (cases ev; cases "case ev of StateChanged q \<Rightarrow> q";
      simp add: wf_sock_def state_changed_def notify_waiters_def AsyncResult_set_def
        AsyncResult_set_exception_def do_effect_def Let_def)

lemma await_resolved:
  "heap s ! a \<noteq> Pending \<Longrightarrow> await s a evs = (wait_result_of (heap s ! a), s)"
  by (cases evs; cases "heap s ! a"; simp)

lemma await_frame:
  "closed_flag (snd (await s a evs)) = closed_flag s
   \<and> readable (snd (await s a evs)) = readable s
   \<and> writable (snd (await s a evs)) = writable s
   \<and> state_event (snd (await s a evs)) = state_event s
   \<and> length (heap (snd (await s a evs))) = length (heap s)"
  by (induction evs arbitrary: s) (auto simp add: deliver_frame split: cell.splits)

lemma await_writable:
  "wf_sock s \<Longrightarrow> heap s ! writable s = Pending \<Longrightarrow>
   fst (await s (writable s) evs) = wait_result_of (first_resolution (closed_flag s) POLLOUT evs)
   \<and> trace (snd (await s (writable s) evs)) = trace s @ queries (closed_flag s) POLLOUT evs"
proof (induction evs arbitrary: s)
  case Nil
  then show ?case by simp
next
  case (Cons ev evs)
  let ?s' = "deliver s ev"
  show ?case
  proof (cases "resolution (closed_flag s) POLLOUT ev")
    case Pending
    with Cons.prems have "heap ?s' ! writable ?s' = Pending"
      by (simp add: deliver_writable deliver_frame)
    with Cons.IH [of ?s'] Cons.prems Pending show ?thesis
      by (simp add: deliver_wf deliver_frame deliver_trace split: sched_event.splits)
  next
    case Value
    with Cons.prems have "heap ?s' ! writable s = Value"
      by (simp add: deliver_writable)
    with Cons.prems Value show ?thesis
      by (simp add: await_resolved deliver_trace split: sched_event.splits)
  next
    case (Exception exc)
    with Cons.prems have "heap ?s' ! writable s = Exception exc"
      by (simp add: deliver_writable)
    with Cons.prems Exception show ?thesis
      by (simp add: await_resolved deliver_trace split: sched_event.splits)
  qed
qed

lemma await_readable:
  "wf_sock s \<Longrightarrow> heap s ! readable s = Pending \<Longrightarrow>
   fst (await s (readable s) evs) = wait_result_of (first_resolution (closed_flag s) POLLIN evs)
   \<and> trace (snd (await s (readable s) evs)) = trace s @ queries (closed_flag s) POLLIN evs"
proof (induction evs arbitrary: s)
  case Nil
  then show ?case by simp
next
  case (Cons ev evs)
  let ?s' = "deliver s ev"
  show ?case
  proof (cases "resolution (closed_flag s) POLLIN ev")
    case Pending
    with Cons.prems have "heap ?s' ! readable ?s' = Pending"
      by (simp add: deliver_readable deliver_frame)
    with Cons.IH [of ?s'] Cons.prems Pending show ?thesis
      by (simp add: deliver_wf deliver_frame deliver_trace split: sched_event.splits)
  next
    case Value
    with Cons.prems have "heap ?s' ! readable s = Value"
      by (simp add: deliver_readable)
    with Cons.prems Value show ?thesis
      by (simp add: await_resolved deliver_trace split: sched_event.splits)
  next
    case (Exception exc)
    with Cons.prems have "heap ?s' ! readable s = Exception exc"
      by (simp add: deliver_readable)
    with Cons.prems Exception show ?thesis
      by (simp add: await_resolved deliver_trace split: sched_event.splits)
  qed
qed

lemma wait_write_result:
  assumes "readable s < length (heap s)"
  shows "fst (wait_write s evs) = wait_result_of (first_resolution (closed_flag s) POLLOUT evs)"
    and "trace (snd (wait_write s evs)) =
           trace s @ [New (length (heap s)), Get (length (heap s)) Pending]
             @ queries (closed_flag s) POLLOUT evs"
    and "closed_flag (snd (wait_write s evs)) = closed_flag s"
    and "readable (snd (wait_write s evs)) = readable s"
    and "writable (snd (wait_write s evs)) = length (heap s)"
    and "state_event (snd (wait_write s evs)) = state_event s"
    and "length (heap (snd (wait_write s evs))) = Suc (length (heap s))"
    and "wf_sock (snd (wait_write s evs))"
proof -
  let ?s2 = "do_effect (Get (length (heap s)) Pending)
               ((do_effect (New (length (heap s))) (s\<lparr>heap := heap s @ [Pending]\<rparr>))
                  \<lparr>writable := length (heap s)\<rparr>)"
  have eq: "wait_write s evs = await ?s2 (writable ?s2) evs"
    by (simp add: wait_write_def AsyncResult_new_def AsyncResult_get_def do_effect_def)
  have wf: "wf_sock ?s2" and pend: "heap ?s2 ! writable ?s2 = Pending"
    using assms by (simp_all add: wf_sock_def do_effect_def)
  from await_writable [OF wf pend, of evs] await_frame [of ?s2 "writable ?s2" evs]
  show "fst (wait_write s evs) = wait_result_of (first_resolution (closed_flag s) POLLOUT evs)"
    and "trace (snd (wait_write s evs)) =
           trace s @ [New (length (heap s)), Get (length (heap s)) Pending]
             @ queries (closed_flag s) POLLOUT evs"
    and "closed_flag (snd (wait_write s evs)) = closed_flag s"
    and "readable (snd (wait_write s evs)) = readable s"
    and "writable (snd (wait_write s evs)) = length (heap s)"
    and "state_event (snd (wait_write s evs)) = state_event s"
    and "length (heap (snd (wait_write s evs))) = Suc (length (heap s))"
    by (simp_all add: eq do_effect_def)
  from wf await_frame [of ?s2 "writable ?s2" evs]
  show "wf_sock (snd (wait_write s evs))"
    by (simp add: eq wf_sock_def)
qed

lemma wait_read_result:
  assumes "writable s < length (heap s)"
  shows "fst (wait_read s evs) = wait_result_of (first_resolution (closed_flag s) POLLIN evs)"
    and "trace (snd (wait_read s evs)) =
           trace s @ [New (length (heap s)), Get (length (heap s)) Pending]
             @ queries (closed_flag s) POLLIN evs"
    and "closed_flag (snd (wait_read s evs)) = closed_flag s"
    and "writable (snd (wait_read s evs)) = writable s"
    and "readable (snd (wait_read s evs)) = length (heap s)"
    and "state_event (snd (wait_read s evs)) = state_event s"
    and "length (heap (snd (wait_read s evs))) = Suc (length (heap s))"
    and "wf_sock (snd (wait_read s evs))"
proof -
  let ?s2 = "do_effect (Get (length (heap s)) Pending)
               ((do_effect (New (length (heap s))) (s\<lparr>heap := heap s @ [Pending]\<rparr>))
                  \<lparr>readable := length (heap s)\<rparr>)"
  have eq: "wait_read s evs = await ?s2 (readable ?s2) evs"
    by (simp add: wait_read_def AsyncResult_new_def AsyncResult_get_def do_effect_def)
  have wf: "wf_sock ?s2" and pend: "heap ?s2 ! readable ?s2 = Pending"
    using assms by (simp_all add: wf_sock_def do_effect_def)
  from await_readable [OF wf pend, of evs] await_frame [of ?s2 "readable ?s2" evs]
  show "fst (wait_read s evs) = wait_result_of (first_resolution (closed_flag s) POLLIN evs)"
    and "trace (snd (wait_read s evs)) =
           trace s @ [New (length (heap s)), Get (length (heap s)) Pending]
             @ queries (closed_flag s) POLLIN evs"
    and "closed_flag (snd (wait_read s evs)) = closed_flag s"
    and "writable (snd (wait_read s evs)) = writable s"
    and "readable (snd (wait_read s evs)) = length (heap s)"
    and "state_event (snd (wait_read s evs)) = state_event s"
    and "length (heap (snd (wait_read s evs))) = Suc (length (heap s))"
    by (simp_all add: eq do_effect_def)
  from wf await_frame [of ?s2 "readable ?s2" evs]
  show "wf_sock (snd (wait_read s evs))"
    by (simp add: eq wf_sock_def)
qed

lemma waits_on_fresh_append:
  "waits_on_fresh n p (xs @ ys) =
     (waits_on_fresh n p xs \<and> waits_on_fresh n (if xs = [] then p else Some (last xs)) ys)"
  by (induction xs arbitrary: p) auto

lemma waits_on_fresh_mono:
  "waits_on_fresh n' p es \<Longrightarrow> n \<le> n' \<Longrightarrow> waits_on_fresh n p es"
  by (induction es arbitrary: p) (auto split: effect.splits)

lemma waits_on_fresh_queries: "waits_on_fresh n p (queries c b evs)"
  by (induction evs arbitrary: p) (auto split: sched_event.splits cell.splits)


lemma notify_waiters_frame:
  "closed_flag (notify_waiters s) = closed_flag s"
  "readable (notify_waiters s) = readable s"
  "writable (notify_waiters s) = writable s"
  "state_event (notify_waiters s) = state_event s"
  "trace (notify_waiters s) = trace s"
  "length (heap (notify_waiters s)) = length (heap s)"
  "heap (notify_waiters s) = (heap s)[writable s := Value, readable s := Value]"
  by (simp_all add: notify_waiters_def AsyncResult_set_def)

lemma do_effect_frame:
  "closed_flag (do_effect e s) = closed_flag s"
  "readable (do_effect e s) = readable s"
  "writable (do_effect e s) = writable s"
  "state_event (do_effect e s) = state_event s"
  "trace (do_effect e s) = trace s @ [e]"
  "heap (do_effect e s) = heap s"
  by (simp_all add: do_effect_def)

lemma await_trace_any:
  "\<exists>es. trace (snd (await s a evs)) = trace s @ es \<and> (\<forall>n p. waits_on_fresh n p es)"
proof (induction evs arbitrary: s)
  case Nil
  show ?case by (simp split: cell.splits)
next
  case (Cons ev evs)
  show ?case
  proof (cases "heap s ! a")
    case Pending
    from Cons.IH [of "deliver s ev"] obtain es where
      es: "trace (snd (await (deliver s ev) a evs)) = trace (deliver s ev) @ es"
          "\<forall>n p. waits_on_fresh n p es" by blast
    let ?q = "case ev of StateChanged q \<Rightarrow> (if closed_flag s then [] else [NativeGetsockopt EVENTS])
                | Notified \<Rightarrow> []"
    have "trace (snd (await s a (ev # evs))) = trace s @ (?q @ es)"
      using Pending es(1) by (simp add: deliver_trace)
    moreover have "\<forall>n p. waits_on_fresh n p (?q @ es)"
      using es(2) by (auto simp add: waits_on_fresh_append split: sched_event.splits)
    ultimately show ?thesis by blast
  qed simp_all
qed

lemma wait_write_trace_any:
  "\<exists>es. trace (snd (wait_write s evs)) =
          trace s @ [New (length (heap s)), Get (length (heap s)) Pending] @ es
        \<and> (\<forall>n p. waits_on_fresh n p es)"
  using await_trace_any [of "do_effect (Get (length (heap s)) Pending)
               ((do_effect (New (length (heap s))) (s\<lparr>heap := heap s @ [Pending]\<rparr>))
                  \<lparr>writable := length (heap s)\<rparr>)" "length (heap s)" evs]
  by (simp add: wait_write_def AsyncResult_new_def AsyncResult_get_def do_effect_def)

lemma wait_read_trace_any:
  "\<exists>es. trace (snd (wait_read s evs)) =
          trace s @ [New (length (heap s)), Get (length (heap s)) Pending] @ es
        \<and> (\<forall>n p. waits_on_fresh n p es)"
  using await_trace_any [of "do_effect (Get (length (heap s)) Pending)
               ((do_effect (New (length (heap s))) (s\<lparr>heap := heap s @ [Pending]\<rparr>))
                  \<lparr>readable := length (heap s)\<rparr>)" "length (heap s)" evs]
  by (simp add: wait_read_def AsyncResult_new_def AsyncResult_get_def do_effect_def)

lemma wait_write_heap_length:
  "length (heap (snd (wait_write s evs))) = Suc (length (heap s))"
  using await_frame [of "do_effect (Get (length (heap s)) Pending)
               ((do_effect (New (length (heap s))) (s\<lparr>heap := heap s @ [Pending]\<rparr>))
                  \<lparr>writable := length (heap s)\<rparr>)" "length (heap s)" evs]
  by (simp add: wait_write_def AsyncResult_new_def AsyncResult_get_def do_effect_def)

lemma wait_read_heap_length:
  "length (heap (snd (wait_read s evs))) = Suc (length (heap s))"
  using await_frame [of "do_effect (Get (length (heap s)) Pending)
               ((do_effect (New (length (heap s))) (s\<lparr>heap := heap s @ [Pending]\<rparr>))
                  \<lparr>readable := length (heap s)\<rparr>)" "length (heap s)" evs]
  by (simp add: wait_read_def AsyncResult_new_def AsyncResult_get_def do_effect_def)

lemma send_loop_waits:
  "\<exists>es. trace (snd (send_loop s data flags copy track script)) = trace s @ es
        \<and> (\<forall>p. waits_on_fresh (length (heap s)) p es)"
proof (induction script arbitrary: s)
  case Nil
  show ?case by simp
next
  case (Cons rd rest)
  obtain r evs where rd: "rd = (r, evs)" by (cases rd)
  let ?s1 = "do_effect (NativeSend data flags copy track) s"
  let ?n = "length (heap s)"
  show ?case
  proof (cases "retry r")
    case False
    then show ?thesis
      by (auto simp add: rd retry_def do_effect_frame Let_def split: sum.splits)
  next
    case True
    then obtain e where r: "r = Inl e" "errno e = EAGAIN"
      by (auto simp add: retry_def split: sum.splits)
    obtain w s2 where w: "wait_write (notify_waiters ?s1) evs = (w, s2)"
      by (cases "wait_write (notify_waiters ?s1) evs")
    from wait_write_trace_any [of "notify_waiters ?s1" evs] w obtain qs where
      qs: "trace s2 = trace s @ [NativeSend data flags copy track, New ?n, Get ?n Pending] @ qs"
          "\<forall>n p. waits_on_fresh n p qs"
      by (auto simp add: notify_waiters_frame do_effect_frame)
    have len: "length (heap s2) = Suc ?n"
      using wait_write_heap_length [of "notify_waiters ?s1" evs] w
      by (simp add: notify_waiters_frame do_effect_frame)
    have round: "\<forall>p. waits_on_fresh ?n p ([NativeSend data flags copy track, New ?n, Get ?n Pending] @ qs)"
      using qs(2) by (simp add: waits_on_fresh_append)
    show ?thesis
    proof (cases w)
      case Woken
      from Cons.IH [of s2] obtain es where
        es: "trace (snd (send_loop s2 data flags copy track rest)) = trace s2 @ es"
            "\<forall>p. waits_on_fresh (length (heap s2)) p es" by blast
      have "\<forall>p. waits_on_fresh ?n p es"
        using es(2) len by (auto intro: waits_on_fresh_mono [where n' = "Suc ?n"])
      with round have "\<forall>p. waits_on_fresh ?n p
          (([NativeSend data flags copy track, New ?n, Get ?n Pending] @ qs) @ es)"
        by (simp only: waits_on_fresh_append) simp
      moreover have "trace (snd (send_loop s data flags copy track (rd # rest))) =
          trace s @ (([NativeSend data flags copy track, New ?n, Get ?n Pending] @ qs) @ es)"
        using r w Woken es(1) qs(1) by (simp add: rd Let_def)
      ultimately show ?thesis by blast
    next
      case (WaitRaised exc)
      have "trace (snd (send_loop s data flags copy track (rd # rest))) =
          trace s @ ([NativeSend data flags copy track, New ?n, Get ?n Pending] @ qs)"
        using r w WaitRaised qs(1) by (simp add: rd Let_def)
      with round show ?thesis by blast
    next
      case Blocked
      have "trace (snd (send_loop s data flags copy track (rd # rest))) =
          trace s @ ([NativeSend data flags copy track, New ?n, Get ?n Pending] @ qs)"
        using r w Blocked qs(1) by (simp add: rd Let_def)
      with round show ?thesis by blast
    qed
  qed
qed

lemma recv_loop_waits:
  "\<exists>es. trace (snd (recv_loop s flags copy track script)) = trace s @ es
        \<and> (\<forall>p. waits_on_fresh (length (heap s)) p es)"
proof (induction script arbitrary: s)
  case Nil
  show ?case by simp
next
  case (Cons rd rest)
  obtain r evs where rd: "rd = (r, evs)" by (cases rd)
  let ?s1 = "do_effect (NativeRecv flags copy track) s"
  let ?n = "length (heap s)"
  show ?case
  proof (cases "retry r")
    case False
    then show ?thesis
      by (auto simp add: rd retry_def do_effect_frame Let_def split: sum.splits)
  next
    case True
    then obtain e where r: "r = Inl e" "errno e = EAGAIN"
      by (auto simp add: retry_def split: sum.splits)
    obtain w s2 where w: "wait_read (notify_waiters ?s1) evs = (w, s2)"
      by (cases "wait_read (notify_waiters ?s1) evs")
    from wait_read_trace_any [of "notify_waiters ?s1" evs] w obtain qs where
      qs: "trace s2 = trace s @ [NativeRecv flags copy track, New ?n, Get ?n Pending] @ qs"
          "\<forall>n p. waits_on_fresh n p qs"
      by (auto simp add: notify_waiters_frame do_effect_frame)
    have len: "length (heap s2) = Suc ?n"
      using wait_read_heap_length [of "notify_waiters ?s1" evs] w
      by (simp add: notify_waiters_frame do_effect_frame)
    have round: "\<forall>p. waits_on_fresh ?n p ([NativeRecv flags copy track, New ?n, Get ?n Pending] @ qs)"
      using qs(2) by (simp add: waits_on_fresh_append)
    show ?thesis
    proof (cases w)
      case Woken
      from Cons.IH [of s2] obtain es where
        es: "trace (snd (recv_loop s2 flags copy track rest)) = trace s2 @ es"
            "\<forall>p. waits_on_fresh (length (heap s2)) p es" by blast
      have "\<forall>p. waits_on_fresh ?n p es"
        using es(2) len by (auto intro: waits_on_fresh_mono [where n' = "Suc ?n"])
      with round have "\<forall>p. waits_on_fresh ?n p
          (([NativeRecv flags copy track, New ?n, Get ?n Pending] @ qs) @ es)"
        by (simp only: waits_on_fresh_append) simp
      moreover have "trace (snd (recv_loop s flags copy track (rd # rest))) =
          trace s @ (([NativeRecv flags copy track, New ?n, Get ?n Pending] @ qs) @ es)"
        using r w Woken es(1) qs(1) by (simp add: rd Let_def)
      ultimately show ?thesis by blast
    next
      case (WaitRaised exc)
      have "trace (snd (recv_loop s flags copy track (rd # rest))) =
          trace s @ ([NativeRecv flags copy track, New ?n, Get ?n Pending] @ qs)"
        using r w WaitRaised qs(1) by (simp add: rd Let_def)
      with round show ?thesis by blast
    next
      case Blocked
      have "trace (snd (recv_loop s flags copy track (rd # rest))) =
          trace s @ ([NativeRecv flags copy track, New ?n, Get ?n Pending] @ qs)"
        using r w Blocked qs(1) by (simp add: rd Let_def)
      with round show ?thesis by blast
    qed
  qed
qed

lemma finally_notify_trace: "trace (snd (finally_notify rs)) = trace (snd rs)"
  by (cases rs) (auto simp add: finally_notify_def notify_waiters_frame split: option.splits outcome.splits)

lemma finally_notify_fst: "fst (finally_notify rs) = fst rs"
  by (cases rs) (auto simp add: finally_notify_def split: option.splits outcome.splits)



lemma wf_sock_notify_waiters: "wf_sock (notify_waiters s) = wf_sock s"
  by (simp add: wf_sock_def notify_waiters_frame)

lemma wf_sock_state_changed: "wf_sock (state_changed s q) = wf_sock s"
  using deliver_wf [of s "StateChanged q"] by simp

lemma wf_sock_do_effect: "wf_sock (do_effect e s) = wf_sock s"
  by (simp add: wf_sock_def do_effect_frame)

lemma wf_sock_close: "wf_sock (close s) = wf_sock s"
  by (auto simp add: wf_sock_def close_def native_close_def watcher_teardown_def do_effect_def
        split: option.splits gevent_api.splits)

lemma wf_sock_getsockopt: "wf_sock (snd (getsockopt s opt q)) = wf_sock s"
  by (simp add: getsockopt_def dunder_getsockopt_def wf_sock_notify_waiters wf_sock_do_effect)

lemma wf_sock_send_loop:
  "wf_sock s \<Longrightarrow> wf_sock (snd (send_loop s data flags copy track script))"
proof (induction script arbitrary: s)
  case Nil
  then show ?case by simp
next
  case (Cons rd rest)
  obtain r evs where rd: "rd = (r, evs)" by (cases rd)
  let ?s1 = "notify_waiters (do_effect (NativeSend data flags copy track) s)"
  have "readable ?s1 < length (heap ?s1)"
    using Cons.prems by (simp add: wf_sock_def notify_waiters_frame do_effect_frame)
  from wait_write_result(8) [OF this, of evs]
  have w: "wf_sock (snd (wait_write ?s1 evs))" .
  obtain wr s2 where s2: "wait_write ?s1 evs = (wr, s2)" by (cases "wait_write ?s1 evs")
  with w have "wf_sock s2" by simp
  with Cons.IH [of s2] Cons.prems s2 show ?case
    by (cases r; cases wr) (simp_all add: rd Let_def wf_sock_do_effect)
qed

lemma wf_sock_recv_loop:
  "wf_sock s \<Longrightarrow> wf_sock (snd (recv_loop s flags copy track script))"
proof (induction script arbitrary: s)
  case Nil
  then show ?case by simp
next
  case (Cons rd rest)
  obtain r evs where rd: "rd = (r, evs)" by (cases rd)
  let ?s1 = "notify_waiters (do_effect (NativeRecv flags copy track) s)"
  have "writable ?s1 < length (heap ?s1)"
    using Cons.prems by (simp add: wf_sock_def notify_waiters_frame do_effect_frame)
  from wait_read_result(8) [OF this, of evs]
  have w: "wf_sock (snd (wait_read ?s1 evs))" .
  obtain wr s2 where s2: "wait_read ?s1 evs = (wr, s2)" by (cases "wait_read ?s1 evs")
  with w have "wf_sock s2" by simp
  with Cons.IH [of s2] Cons.prems s2 show ?case
    by (cases r; cases wr) (simp_all add: rd Let_def wf_sock_do_effect)
qed

lemma wf_sock_finally_notify: "wf_sock (snd (finally_notify rs)) = wf_sock (snd rs)"
  by (cases rs)
     (auto simp add: finally_notify_def wf_sock_notify_waiters split: option.splits outcome.splits)

lemma wf_sock_send:
  "wf_sock s \<Longrightarrow> wf_sock (snd (send s data flags copy track script))"
  using wf_sock_send_loop [of s data "flags OR NOBLOCK" copy track script]
  by (cases script)
     (auto simp add: send_def dunder_send_def wf_sock_finally_notify wf_sock_do_effect)

lemma wf_sock_recv:
  "wf_sock s \<Longrightarrow> wf_sock (snd (recv s flags copy track script))"
  using wf_sock_recv_loop [of s "flags OR NOBLOCK" copy track script]
  by (cases script)
     (auto simp add: recv_def dunder_recv_def wf_sock_finally_notify wf_sock_do_effect)

lemma timer_events_append: "timer_events (xs @ ys) = timer_events xs @ timer_events ys"
  by (simp add: timer_events_def)

lemma descriptor_of_frame:
  "fst (descriptor_of it p) = fst (descriptor_of it p')"
  "sockets (snd (descriptor_of it p)) = sockets p"
  "timer_events (plog (snd (descriptor_of it p))) = timer_events (plog p)"
  by (induction it p rule: descriptor_of.induct; simp add: p_effect_def timer_events_def)+

lemma get_descriptors_loop_frame:
  "fst (get_descriptors_loop xs acc p) = fst (get_descriptors_loop xs acc p')
   \<and> sockets (snd (get_descriptors_loop xs acc p)) = sockets p
   \<and> timer_events (plog (snd (get_descriptors_loop xs acc p))) = timer_events (plog p)"
proof (induction xs arbitrary: acc p p')
  case Nil
  show ?case by simp
next
  case (Cons x xs)
  obtain it flags where x: "x = (it, flags)" by (cases x)
  obtain rl wl xl where acc: "acc = (rl, wl, xl)" by (cases acc)
  obtain d p1 where d: "descriptor_of it p = (d, p1)" by (cases "descriptor_of it p")
  obtain d' p1' where d': "descriptor_of it p' = (d', p1')" by (cases "descriptor_of it p'")
  from descriptor_of_frame(1) [of it p p'] descriptor_of_frame(2,3) [of it p] d d'
  have dd: "d' = d" "sockets p1 = sockets p" "timer_events (plog p1) = timer_events (plog p)"
    by simp_all
  show ?case
  proof (cases d)
    case (Inl ex)
    then show ?thesis using d d' dd by (simp add: x acc)
  next
    case (Inr fd)
    then show ?thesis
      using d d' dd Cons.IH [of _ p1 p1'] by (simp add: x acc)
  qed
qed

lemma get_descriptors_frame:
  "sockets p' = sockets p \<Longrightarrow> fst (get_descriptors p') = fst (get_descriptors p)"
  "sockets (snd (get_descriptors p)) = sockets p"
  "timer_events (plog (snd (get_descriptors p))) = timer_events (plog p)"
  using get_descriptors_loop_frame [of "sockets p" "([], [], [])" p' p]
        get_descriptors_loop_frame [of "sockets p" "([], [], [])" p p]
  by (simp_all add: get_descriptors_def)

lemma poll_loop_timer_events:
  "timer_events (plog (snd (poll_loop p timeout cur script))) = timer_events (plog p)"
proof (induction script arbitrary: p cur)
  case Nil
  show ?case by simp
next
  case (Cons rd script)
  obtain pr sel where rd: "rd = (pr, sel)" by (cases rd)
  let ?p1 = "p_effect (NativePoll 0) p"
  have p1: "timer_events (plog ?p1) = timer_events (plog p)"
    by (simp add: p_effect_def timer_events_def)
  obtain g pg where g: "get_descriptors ?p1 = (g, pg)" by (cases "get_descriptors ?p1")
  have pg: "timer_events (plog pg) = timer_events (plog p)"
    using get_descriptors_frame(3) [of ?p1] g p1 by simp
  have sel_step: "timer_events (plog (p_effect (Select a b c) q)) = timer_events (plog q)" for a b c q
    by (simp add: p_effect_def timer_events_def)
  show ?case
    using p1 pg g Cons.IH
    by (auto simp add: rd Let_def sel_step split: sum.splits option.splits prod.splits select_outcome.splits)
qed

lemma poll_loop_nothing_ready:
  assumes "fst (get_descriptors p) = Inr fds0"
    and "timeout \<noteq> 0"
    and "cur = None \<or> cur = Some fds0"
  shows "\<exists>p' cur'. poll_loop p timeout cur (nothing_ready n @ rest) = poll_loop p' timeout cur' rest
            \<and> sockets p' = sockets p \<and> (cur' = None \<or> cur' = Some fds0)"
  using assms
proof (induction n arbitrary: p cur)
  case 0
  then show ?case by (auto simp add: nothing_ready_def)
next
  case (Suc n)
  let ?p1 = "p_effect (NativePoll 0) p"
  have s1: "sockets ?p1 = sockets p" by (simp add: p_effect_def)
  obtain g pg where g: "get_descriptors ?p1 = (g, pg)" by (cases "get_descriptors ?p1")
  have gg: "g = Inr fds0" "sockets pg = sockets p"
    using get_descriptors_frame(1) [OF s1] get_descriptors_frame(2) [of ?p1] g Suc.prems(1) s1
    by simp_all
  obtain rl wl xl where fds0: "fds0 = (rl, wl, xl)" by (cases fds0)
  define p2 where "p2 = (if cur = None \<or> (rl = [] \<and> wl = [] \<and> xl = []) then pg else ?p1)"
  let ?p3 = "p_effect (Select rl wl xl) p2"
  have step: "poll_loop p timeout cur (nothing_ready (Suc n) @ rest) =
              poll_loop ?p3 timeout (Some fds0) (nothing_ready n @ rest)"
    using Suc.prems(2,3) g gg(1)
    by (auto simp add: nothing_ready_def p2_def fds0 Let_def)
  have s3: "sockets ?p3 = sockets p"
    using gg(2) s1 by (simp add: p2_def p_effect_def)
  have "fst (get_descriptors ?p3) = Inr fds0"
    using get_descriptors_frame(1) [OF s3] Suc.prems(1) by simp
  from Suc.IH [OF this Suc.prems(2), of "Some fds0"] s3 show ?case
    by (simp only: step) auto
qed

lemma poll_zero:
  assumes "normalize_timeout timeout = 0"
  shows "poll p timeout tout ((pr, sel) # rest) =
           (Some (case pr of Inl e \<Rightarrow> Inl (ZMQ e) | Inr events \<Rightarrow> Inr events),
            p_effect (NativePoll 0) p)"
  using assms by (cases pr) (simp_all add: poll_def Let_def)

lemma poll_loop_events:
  assumes "fst (get_descriptors p) = Inr fds0" and "timeout \<noteq> 0"
  shows "fst (poll_loop p timeout None (nothing_ready n)) = None"
    and "fst (poll_loop p timeout None (nothing_ready n @ (Inr [], TimeoutSignal t) # rest)) =
           Some (Inl (Timeout t))"
    and "events \<noteq> [] \<Longrightarrow>
         fst (poll_loop p timeout None (nothing_ready n @ (Inr events, sel) # rest)) =
           Some (Inr events)"
proof -
  from poll_loop_nothing_ready [OF assms, of None n "[]"]
  show "fst (poll_loop p timeout None (nothing_ready n)) = None"
    by auto
next
  from poll_loop_nothing_ready [OF assms, of None n "(Inr [], TimeoutSignal t) # rest"]
  obtain p' cur' where
    eq: "poll_loop p timeout None (nothing_ready n @ (Inr [], TimeoutSignal t) # rest) =
         poll_loop p' timeout cur' ((Inr [], TimeoutSignal t) # rest)"
    and p': "sockets p' = sockets p" and cur': "cur' = None \<or> cur' = Some fds0"
    by auto
  let ?p1 = "p_effect (NativePoll 0) p'"
  have s1: "sockets ?p1 = sockets p" using p' by (simp add: p_effect_def)
  obtain g pg where g: "get_descriptors ?p1 = (g, pg)" by (cases "get_descriptors ?p1")
  have gg: "g = Inr fds0"
    using get_descriptors_frame(1) [OF s1] g assms(1) by simp
  obtain rl wl xl where fds0: "fds0 = (rl, wl, xl)" by (cases fds0)
  show "fst (poll_loop p timeout None (nothing_ready n @ (Inr [], TimeoutSignal t) # rest)) =
           Some (Inl (Timeout t))"
    using cur' assms(2) g gg by (auto simp add: eq fds0 Let_def)
next
  assume ev: "events \<noteq> []"
  from poll_loop_nothing_ready [OF assms, of None n "(Inr events, sel) # rest"]
  obtain p' cur' where
    eq: "poll_loop p timeout None (nothing_ready n @ (Inr events, sel) # rest) =
         poll_loop p' timeout cur' ((Inr events, sel) # rest)"
    by auto
  show "fst (poll_loop p timeout None (nothing_ready n @ (Inr events, sel) # rest)) =
           Some (Inr events)"
    using ev by (simp add: eq Let_def)
qed

lemma get_descriptors_p_effect:
  "fst (get_descriptors (p_effect e p)) = fst (get_descriptors p)"
  by (rule get_descriptors_frame(1)) (simp add: p_effect_def)

lemma normalize_timeout_cases:
  "normalize_timeout None = - 1"
  "py_int t < 0 \<Longrightarrow> normalize_timeout (Some t) = - 1"
  "0 \<le> py_int t \<Longrightarrow> normalize_timeout (Some t) = py_int t"
  by (simp_all add: normalize_timeout_def)

lemma first_resolution_Pending_iff:
  "first_resolution c b evs \<noteq> Pending \<longleftrightarrow> (\<exists>ev \<in> set evs. resolution c b ev \<noteq> Pending)"
  by (induction evs) (auto split: cell.splits)

lemma wait_result_of_Blocked: "wait_result_of c = Blocked \<longleftrightarrow> c = Pending"
  by (cases c) simp_all

lemma state_changed_frame:
  "closed_flag (state_changed s q) = closed_flag s"
  "readable (state_changed s q) = readable s"
  "writable (state_changed s q) = writable s"
  "length (heap (state_changed s q)) = length (heap s)"
  using deliver_frame [of s "StateChanged q"] by simp_all

lemma wait_write_await:
  "wait_write s evs =
     await (s\<lparr>heap := heap s @ [Pending], writable := length (heap s),
               trace := trace s @ [New (length (heap s)), Get (length (heap s)) Pending]\<rparr>)
       (length (heap s)) evs"
  by (simp add: wait_write_def AsyncResult_new_def AsyncResult_get_def do_effect_def)

lemma wait_read_await:
  "wait_read s evs =
     await (s\<lparr>heap := heap s @ [Pending], readable := length (heap s),
               trace := trace s @ [New (length (heap s)), Get (length (heap s)) Pending]\<rparr>)
       (length (heap s)) evs"
  by (simp add: wait_read_def AsyncResult_new_def AsyncResult_get_def do_effect_def)

lemma send_loop_wait_state:
  assumes "retry r"
  shows "\<exists>sw. send_loop s data flags copy track ((r, evs) # rest) =
               (case await sw (writable sw) evs of
                  (Woken, s2) \<Rightarrow> send_loop s2 data flags copy track rest
                | (WaitRaised exc, s2) \<Rightarrow> (Some (Raised exc), s2)
                | (Blocked, s2) \<Rightarrow> (Some Suspended, s2))
             \<and> writable sw = length (heap s)
             \<and> length (heap sw) = Suc (writable sw)
             \<and> heap sw ! writable sw = Pending
             \<and> readable sw = readable s
             \<and> (\<exists>tr. trace sw = tr @ [New (writable sw), Get (writable sw) Pending])"
proof -
  from assms obtain e where r: "r = Inl e" "errno e = EAGAIN"
    by (auto simp add: retry_def split: sum.splits)
  let ?s1 = "notify_waiters (do_effect (NativeSend data flags copy track) s)"
  let ?sw = "?s1\<lparr>heap := heap ?s1 @ [Pending], writable := length (heap ?s1),
               trace := trace ?s1 @ [New (length (heap ?s1)), Get (length (heap ?s1)) Pending]\<rparr>"
  have len: "length (heap ?s1) = length (heap s)"
    by (simp add: notify_waiters_frame do_effect_frame)
  have "send_loop s data flags copy track ((r, evs) # rest) =
          (case await ?sw (writable ?sw) evs of
             (Woken, s2) \<Rightarrow> send_loop s2 data flags copy track rest
           | (WaitRaised exc, s2) \<Rightarrow> (Some (Raised exc), s2)
           | (Blocked, s2) \<Rightarrow> (Some Suspended, s2))"
    using r by (simp add: Let_def wait_write_await)
  moreover have "writable ?sw = length (heap s)" "length (heap ?sw) = Suc (writable ?sw)"
    "heap ?sw ! writable ?sw = Pending" "readable ?sw = readable s"
    by (simp_all add: notify_waiters_frame do_effect_frame nth_append)
  moreover have "\<exists>tr. trace ?sw = tr @ [New (writable ?sw), Get (writable ?sw) Pending]"
    by simp
  ultimately show ?thesis by blast
qed

lemma send_loop_woken_rounds:
  assumes "readable s < length (heap s)"
    and "\<forall>(r', evs') \<in> set pre. retry r' \<and> first_resolution (closed_flag s) POLLOUT evs' = Value"
  shows "\<exists>s2. send_loop s data flags copy track (pre @ tail) = send_loop s2 data flags copy track tail
            \<and> length (heap s2) = length (heap s) + length pre
            \<and> readable s2 = readable s"
  using assms
proof (induction pre arbitrary: s)
  case Nil
  show ?case by (rule exI [of _ s]) simp
next
  case (Cons rd pre)
  obtain r' evs' where rd: "rd = (r', evs')" by (cases rd)
  from Cons.prems(2) rd obtain e where
    r': "r' = Inl e" "errno e = EAGAIN"
    and wake: "first_resolution (closed_flag s) POLLOUT evs' = Value"
    by (auto simp add: retry_def split: sum.splits)
  let ?s1 = "notify_waiters (do_effect (NativeSend data flags copy track) s)"
  have rd1: "readable ?s1 < length (heap ?s1)"
    using Cons.prems(1) by (simp add: notify_waiters_frame do_effect_frame)
  obtain w s1 where w: "wait_write ?s1 evs' = (w, s1)"
    by (cases "wait_write ?s1 evs'")
  from wait_write_result [OF rd1, of evs'] w wake
  have woken: "w = Woken"
    and fr: "closed_flag s1 = closed_flag s" "readable s1 = readable s"
            "length (heap s1) = Suc (length (heap s))"
    by (simp_all add: notify_waiters_frame do_effect_frame)
  have step: "send_loop s data flags copy track ((rd # pre) @ tail) =
              send_loop s1 data flags copy track (pre @ tail)"
    using r' w woken by (simp add: rd Let_def)
  have "readable s1 < length (heap s1)"
    using fr Cons.prems(1) by simp
  moreover have "\<forall>(r', evs') \<in> set pre.
      retry r' \<and> first_resolution (closed_flag s1) POLLOUT evs' = Value"
    using Cons.prems(2) fr by simp
  ultimately obtain s2 where
    "send_loop s1 data flags copy track (pre @ tail) = send_loop s2 data flags copy track tail"
    "length (heap s2) = length (heap s1) + length pre" "readable s2 = readable s1"
    using Cons.IH [of s1] by blast
  then show ?case
    using fr by (simp only: step) auto
qed

lemma recv_loop_wait_state:
  assumes "retry r"
  shows "\<exists>sw. recv_loop s flags copy track ((r, evs) # rest) =
               (case await sw (readable sw) evs of
                  (Woken, s2) \<Rightarrow> recv_loop s2 flags copy track rest
                | (WaitRaised exc, s2) \<Rightarrow> (Some (Raised exc), s2)
                | (Blocked, s2) \<Rightarrow> (Some Suspended, s2))
             \<and> readable sw = length (heap s)
             \<and> length (heap sw) = Suc (readable sw)
             \<and> heap sw ! readable sw = Pending
             \<and> writable sw = writable s
             \<and> (\<exists>tr. trace sw = tr @ [New (readable sw), Get (readable sw) Pending])"
proof -
  from assms obtain e where r: "r = Inl e" "errno e = EAGAIN"
    by (auto simp add: retry_def split: sum.splits)
  let ?s1 = "notify_waiters (do_effect (NativeRecv flags copy track) s)"
  let ?sw = "?s1\<lparr>heap := heap ?s1 @ [Pending], readable := length (heap ?s1),
               trace := trace ?s1 @ [New (length (heap ?s1)), Get (length (heap ?s1)) Pending]\<rparr>"
  have len: "length (heap ?s1) = length (heap s)"
    by (simp add: notify_waiters_frame do_effect_frame)
  have "recv_loop s flags copy track ((r, evs) # rest) =
          (case await ?sw (readable ?sw) evs of
             (Woken, s2) \<Rightarrow> recv_loop s2 flags copy track rest
           | (WaitRaised exc, s2) \<Rightarrow> (Some (Raised exc), s2)
           | (Blocked, s2) \<Rightarrow> (Some Suspended, s2))"
    using r by (simp add: Let_def wait_read_await)
  moreover have "readable ?sw = length (heap s)" "length (heap ?sw) = Suc (readable ?sw)"
    "heap ?sw ! readable ?sw = Pending" "writable ?sw = writable s"
    by (simp_all add: notify_waiters_frame do_effect_frame nth_append)
  moreover have "\<exists>tr. trace ?sw = tr @ [New (readable ?sw), Get (readable ?sw) Pending]"
    by simp
  ultimately show ?thesis by blast
qed

lemma recv_loop_woken_rounds:
  assumes "writable s < length (heap s)"
    and "\<forall>(r', evs') \<in> set pre. retry r' \<and> first_resolution (closed_flag s) POLLIN evs' = Value"
  shows "\<exists>s2. recv_loop s flags copy track (pre @ tail) = recv_loop s2 flags copy track tail
            \<and> length (heap s2) = length (heap s) + length pre
            \<and> writable s2 = writable s"
  using assms
proof (induction pre arbitrary: s)
  case Nil
  show ?case by (rule exI [of _ s]) simp
next
  case (Cons rd pre)
  obtain r' evs' where rd: "rd = (r', evs')" by (cases rd)
  from Cons.prems(2) rd obtain e where
    r': "r' = Inl e" "errno e = EAGAIN"
    and wake: "first_resolution (closed_flag s) POLLIN evs' = Value"
    by (auto simp add: retry_def split: sum.splits)
  let ?s1 = "notify_waiters (do_effect (NativeRecv flags copy track) s)"
  have rd1: "writable ?s1 < length (heap ?s1)"
    using Cons.prems(1) by (simp add: notify_waiters_frame do_effect_frame)
  obtain w s1 where w: "wait_read ?s1 evs' = (w, s1)"
    by (cases "wait_read ?s1 evs'")
  from wait_read_result [OF rd1, of evs'] w wake
  have woken: "w = Woken"
    and fr: "closed_flag s1 = closed_flag s" "writable s1 = writable s"
            "length (heap s1) = Suc (length (heap s))"
    by (simp_all add: notify_waiters_frame do_effect_frame)
  have step: "recv_loop s flags copy track ((rd # pre) @ tail) =
              recv_loop s1 flags copy track (pre @ tail)"
    using r' w woken by (simp add: rd Let_def)
  have "writable s1 < length (heap s1)"
    using fr Cons.prems(1) by simp
  moreover have "\<forall>(r', evs') \<in> set pre.
      retry r' \<and> first_resolution (closed_flag s1) POLLIN evs' = Value"
    using Cons.prems(2) fr by simp
  ultimately obtain s2 where
    "recv_loop s1 flags copy track (pre @ tail) = recv_loop s2 flags copy track tail"
    "length (heap s2) = length (heap s1) + length pre" "writable s2 = writable s1"
    using Cons.IH [of s1] by blast
  then show ?case
    using fr by (simp only: step) auto
qed

section \<open>The properties\<close>

subsection \<open>Waiting after a notification\<close>

text \<open>
  Claim C1, as amended. A task that begins to wait on a direction's cell after the
  readiness-change handler has run waits on a new, pending cell. The wait ends (by
  returning or by raising) exactly when an event delivered after the wait began
  resolves that direction: a call on the socket that notifies, or the handler running
  on a closed socket, on a failed query or with the direction's bit set in the mask.
  What the handler resolved before the wait began does not end the wait.
\<close>

theorem wait_after_notification:
  assumes "wf_sock s"
  shows "(fst (wait_write (state_changed s q) evs) \<noteq> Blocked
            \<longleftrightarrow> (\<exists>ev \<in> set evs. resolution (closed_flag s) POLLOUT ev \<noteq> Pending))
       \<and> (fst (wait_read (state_changed s q) evs) \<noteq> Blocked
            \<longleftrightarrow> (\<exists>ev \<in> set evs. resolution (closed_flag s) POLLIN ev \<noteq> Pending))"
proof -
  have r: "readable (state_changed s q) < length (heap (state_changed s q))"
    and w: "writable (state_changed s q) < length (heap (state_changed s q))"
    using assms by (simp_all add: state_changed_frame wf_sock_def)
  show ?thesis
    using wait_write_result(1) [OF r, of evs] wait_read_result(1) [OF w, of evs]
    by (simp add: state_changed_frame wait_result_of_Blocked first_resolution_Pending_iff)
qed

text \<open>
  On a new socket: after a notification with the write-ready bit, a wait for writing
  ends with the next such notification, and a wait for reading does not.
\<close>

theorem wait_after_notification_witness:
  "wf_sock (Socket_init Gevent1 5)
   \<and> fst (wait_write (state_changed (Socket_init Gevent1 5) (Inr POLLOUT)) [StateChanged (Inr POLLOUT)])
       \<noteq> Blocked
   \<and> fst (wait_read (state_changed (Socket_init Gevent1 5) (Inr POLLIN)) [StateChanged (Inr POLLOUT)])
       = Blocked"
  using wait_after_notification [OF Socket_init_wf, of Gevent1 5 "Inr POLLOUT" "[StateChanged (Inr POLLOUT)]"]
        wait_after_notification [OF Socket_init_wf, of Gevent1 5 "Inr POLLIN" "[StateChanged (Inr POLLOUT)]"]
  by (simp add: wf_sock_def Socket_init_def setup_events_def AsyncResult_new_def do_effect_def
        POLLOUT_def POLLIN_def)

text \<open>
  Claim C1 as stated fails. The handler runs with the write-ready bit set on an open
  socket and resolves the writable cell; the wait for writing that begins afterwards,
  with no event after it, stays suspended.
\<close>

theorem wait_after_notification_counterexample:
  "POLLOUT AND POLLOUT \<noteq> 0
   \<and> \<not> closed_flag (Socket_init Gevent1 5)
   \<and> heap (state_changed (Socket_init Gevent1 5) (Inr POLLOUT)) ! writable (Socket_init Gevent1 5) = Value
   \<and> fst (wait_write (state_changed (Socket_init Gevent1 5) (Inr POLLOUT)) []) = Blocked"
  by (simp add: Socket_init_def setup_events_def AsyncResult_new_def AsyncResult_get_def
        AsyncResult_set_def do_effect_def state_changed_def wait_write_def POLLOUT_def POLLIN_def)

subsection \<open>The retry loops\<close>



subsection \<open>Reset before wait\<close>

text \<open>
  Claim C3. In the calls that \<^verbatim>\<open>send\<close> and \<^verbatim>\<open>recv\<close> make, whatever the script,
  every wait comes right after the allocation of the cell waited on, which it finds
  pending; the cell is none of those the socket had when the call began. Moreover, for
  every number of earlier rounds that answered \<^verbatim>\<open>EAGAIN\<close> and were woken, the wait after
  the next \<^verbatim>\<open>EAGAIN\<close> begins in a state \<open>sw\<close> in which the cell waited on is the
  socket's writable cell for \<^verbatim>\<open>send\<close> and its readable cell for \<^verbatim>\<open>recv\<close>; this
  cell is the newest of the store and pending, its allocation and the \<^verbatim>\<open>get()\<close> on it
  are the last two calls made, and the cell of the other direction is the one the
  socket had.
\<close>

theorem wait_preceded_by_reset:
  "(\<exists>es. trace (snd (send s data flags copy track script)) = trace s @ es
         \<and> waits_on_fresh (length (heap s)) None es)
   \<and> (\<exists>es. trace (snd (recv s flags copy track script)) = trace s @ es
         \<and> waits_on_fresh (length (heap s)) None es)
   \<and> (wf_sock s \<and> flags AND NOBLOCK = 0 \<and> retry r
        \<and> (\<forall>(r', evs') \<in> set pre.
               retry r' \<and> first_resolution (closed_flag s) POLLOUT evs' = Value) \<longrightarrow>
        (\<exists>sw. send s data flags copy track (pre @ (r, evs) # rest) =
                 finally_notify
                   (case await sw (writable sw) evs of
                      (Woken, s2) \<Rightarrow> send_loop s2 data (flags OR NOBLOCK) copy track rest
                    | (WaitRaised exc, s2) \<Rightarrow> (Some (Raised exc), s2)
                    | (Blocked, s2) \<Rightarrow> (Some Suspended, s2))
              \<and> writable sw = length (heap s) + length pre
              \<and> length (heap sw) = Suc (writable sw)
              \<and> heap sw ! writable sw = Pending
              \<and> readable sw = readable s
              \<and> (\<exists>tr. trace sw = tr @ [New (writable sw), Get (writable sw) Pending])))
   \<and> (wf_sock s \<and> flags AND NOBLOCK = 0 \<and> retry r
        \<and> (\<forall>(r', evs') \<in> set pre.
               retry r' \<and> first_resolution (closed_flag s) POLLIN evs' = Value) \<longrightarrow>
        (\<exists>sw. recv s flags copy track (pre @ (r, evs) # rest) =
                 finally_notify
                   (case await sw (readable sw) evs of
                      (Woken, s2) \<Rightarrow> recv_loop s2 (flags OR NOBLOCK) copy track rest
                    | (WaitRaised exc, s2) \<Rightarrow> (Some (Raised exc), s2)
                    | (Blocked, s2) \<Rightarrow> (Some Suspended, s2))
              \<and> readable sw = length (heap s) + length pre
              \<and> length (heap sw) = Suc (readable sw)
              \<and> heap sw ! readable sw = Pending
              \<and> writable sw = writable s
              \<and> (\<exists>tr. trace sw = tr @ [New (readable sw), Get (readable sw) Pending])))"
proof (intro conjI impI)
  show "\<exists>es. trace (snd (send s data flags copy track script)) = trace s @ es
         \<and> waits_on_fresh (length (heap s)) None es"
  proof (cases "flags AND NOBLOCK \<noteq> 0")
    case True
    then show ?thesis
      by (cases script) (auto simp add: send_def dunder_send_def finally_notify_trace do_effect_frame)
  next
    case False
    with send_loop_waits [of s data "flags OR NOBLOCK" copy track script] show ?thesis
      by (auto simp add: send_def dunder_send_def finally_notify_trace)
  qed
  show "\<exists>es. trace (snd (recv s flags copy track script)) = trace s @ es
         \<and> waits_on_fresh (length (heap s)) None es"
  proof (cases "flags AND NOBLOCK \<noteq> 0")
    case True
    then show ?thesis
      by (cases script) (auto simp add: recv_def dunder_recv_def finally_notify_trace do_effect_frame)
  next
    case False
    with recv_loop_waits [of s "flags OR NOBLOCK" copy track script] show ?thesis
      by (auto simp add: recv_def dunder_recv_def finally_notify_trace)
  qed
next
  assume a: "wf_sock s \<and> flags AND NOBLOCK = 0 \<and> retry r
        \<and> (\<forall>(r', evs') \<in> set pre.
               retry r' \<and> first_resolution (closed_flag s) POLLOUT evs' = Value)"
  then have rd: "readable s < length (heap s)" by (simp add: wf_sock_def)
  from a have pre: "\<forall>(r', evs') \<in> set pre.
      retry r' \<and> first_resolution (closed_flag s) POLLOUT evs' = Value" by simp
  from send_loop_woken_rounds [OF rd pre, of data "flags OR NOBLOCK" copy track "(r, evs) # rest"]
  obtain s1 where s1:
    "send_loop s data (flags OR NOBLOCK) copy track (pre @ (r, evs) # rest) =
     send_loop s1 data (flags OR NOBLOCK) copy track ((r, evs) # rest)"
    "length (heap s1) = length (heap s) + length pre" "readable s1 = readable s"
    by blast
  from a have "retry r" by simp
  from send_loop_wait_state [OF this, of s1 data "flags OR NOBLOCK" copy track evs rest]
  obtain sw where sw:
    "send_loop s1 data (flags OR NOBLOCK) copy track ((r, evs) # rest) =
       (case await sw (writable sw) evs of
          (Woken, s2) \<Rightarrow> send_loop s2 data (flags OR NOBLOCK) copy track rest
        | (WaitRaised exc, s2) \<Rightarrow> (Some (Raised exc), s2)
        | (Blocked, s2) \<Rightarrow> (Some Suspended, s2))"
    "writable sw = length (heap s1)" "length (heap sw) = Suc (writable sw)"
    "heap sw ! writable sw = Pending" "readable sw = readable s1"
    "\<exists>tr. trace sw = tr @ [New (writable sw), Get (writable sw) Pending]"
    by blast
  have "send s data flags copy track (pre @ (r, evs) # rest) =
          finally_notify
            (case await sw (writable sw) evs of
               (Woken, s2) \<Rightarrow> send_loop s2 data (flags OR NOBLOCK) copy track rest
             | (WaitRaised exc, s2) \<Rightarrow> (Some (Raised exc), s2)
             | (Blocked, s2) \<Rightarrow> (Some Suspended, s2))"
    using a s1(1) sw(1) by (simp add: send_def dunder_send_def)
  with s1 sw show "\<exists>sw. send s data flags copy track (pre @ (r, evs) # rest) =
                 finally_notify
                   (case await sw (writable sw) evs of
                      (Woken, s2) \<Rightarrow> send_loop s2 data (flags OR NOBLOCK) copy track rest
                    | (WaitRaised exc, s2) \<Rightarrow> (Some (Raised exc), s2)
                    | (Blocked, s2) \<Rightarrow> (Some Suspended, s2))
              \<and> writable sw = length (heap s) + length pre
              \<and> length (heap sw) = Suc (writable sw)
              \<and> heap sw ! writable sw = Pending
              \<and> readable sw = readable s
              \<and> (\<exists>tr. trace sw = tr @ [New (writable sw), Get (writable sw) Pending])"
    by (intro exI [of _ sw]) simp
next
  assume a: "wf_sock s \<and> flags AND NOBLOCK = 0 \<and> retry r
        \<and> (\<forall>(r', evs') \<in> set pre.
               retry r' \<and> first_resolution (closed_flag s) POLLIN evs' = Value)"
  then have wr: "writable s < length (heap s)" by (simp add: wf_sock_def)
  from a have pre: "\<forall>(r', evs') \<in> set pre.
      retry r' \<and> first_resolution (closed_flag s) POLLIN evs' = Value" by simp
  from recv_loop_woken_rounds [OF wr pre, of "flags OR NOBLOCK" copy track "(r, evs) # rest"]
  obtain s1 where s1:
    "recv_loop s (flags OR NOBLOCK) copy track (pre @ (r, evs) # rest) =
     recv_loop s1 (flags OR NOBLOCK) copy track ((r, evs) # rest)"
    "length (heap s1) = length (heap s) + length pre" "writable s1 = writable s"
    by blast
  from a have "retry r" by simp
  from recv_loop_wait_state [OF this, of s1 "flags OR NOBLOCK" copy track evs rest]
  obtain sw where sw:
    "recv_loop s1 (flags OR NOBLOCK) copy track ((r, evs) # rest) =
       (case await sw (readable sw) evs of
          (Woken, s2) \<Rightarrow> recv_loop s2 (flags OR NOBLOCK) copy track rest
        | (WaitRaised exc, s2) \<Rightarrow> (Some (Raised exc), s2)
        | (Blocked, s2) \<Rightarrow> (Some Suspended, s2))"
    "readable sw = length (heap s1)" "length (heap sw) = Suc (readable sw)"
    "heap sw ! readable sw = Pending" "writable sw = writable s1"
    "\<exists>tr. trace sw = tr @ [New (readable sw), Get (readable sw) Pending]"
    by blast
  have "recv s flags copy track (pre @ (r, evs) # rest) =
          finally_notify
            (case await sw (readable sw) evs of
               (Woken, s2) \<Rightarrow> recv_loop s2 (flags OR NOBLOCK) copy track rest
             | (WaitRaised exc, s2) \<Rightarrow> (Some (Raised exc), s2)
             | (Blocked, s2) \<Rightarrow> (Some Suspended, s2))"
    using a s1(1) sw(1) by (simp add: recv_def dunder_recv_def)
  with s1 sw show "\<exists>sw. recv s flags copy track (pre @ (r, evs) # rest) =
                 finally_notify
                   (case await sw (readable sw) evs of
                      (Woken, s2) \<Rightarrow> recv_loop s2 (flags OR NOBLOCK) copy track rest
                    | (WaitRaised exc, s2) \<Rightarrow> (Some (Raised exc), s2)
                    | (Blocked, s2) \<Rightarrow> (Some Suspended, s2))
              \<and> readable sw = length (heap s) + length pre
              \<and> length (heap sw) = Suc (readable sw)
              \<and> heap sw ! readable sw = Pending
              \<and> writable sw = writable s
              \<and> (\<exists>tr. trace sw = tr @ [New (readable sw), Get (readable sw) Pending])"
    by (intro exI [of _ sw]) simp
qed

text \<open>
  A \<^verbatim>\<open>send\<close> and a \<^verbatim>\<open>recv\<close> on a new socket that are woken once and then stay
  suspended in their second wait: the writable, respectively readable, reference is the
  cell 3 allocated last, which is pending. A wait on an old, resolved cell would not
  pass.
\<close>

theorem wait_preceded_by_reset_witness:
  "wf_sock (Socket_init Gevent1 5) \<and> (0::int) AND NOBLOCK = 0
   \<and> retry (Inl (ZMQError EAGAIN None) :: zmq_error + string)
   \<and> first_resolution False POLLOUT [Notified] = Value
   \<and> first_resolution False POLLIN [Notified] = Value
   \<and> (send (Socket_init Gevent1 5) ''m'' 0 True False
          [(Inl (ZMQError EAGAIN None), [Notified]), (Inl (ZMQError EAGAIN None), [])]
        :: string outcome option \<times> sock)
       = (Some Suspended,
          (Socket_init Gevent1 5)
            \<lparr>heap := [Value, Value, Value, Pending], writable := 3,
             trace := trace (Socket_init Gevent1 5)
                      @ [NativeSend ''m'' 1 True False, New 2, Get 2 Pending,
                         NativeSend ''m'' 1 True False, New 3, Get 3 Pending]\<rparr>)
   \<and> (recv (Socket_init Gevent1 5) 0 True False
          [(Inl (ZMQError EAGAIN None), [Notified]), (Inl (ZMQError EAGAIN None), [])]
        :: string outcome option \<times> sock)
       = (Some Suspended,
          (Socket_init Gevent1 5)
            \<lparr>heap := [Value, Value, Value, Pending], readable := 3,
             trace := trace (Socket_init Gevent1 5)
                      @ [NativeRecv 1 True False, New 2, Get 2 Pending,
                         NativeRecv 1 True False, New 3, Get 3 Pending]\<rparr>)
   \<and> waits_on_fresh 2 None
         [NativeSend ''m'' 1 True False, New 2, Get 2 Pending,
          NativeSend ''m'' 1 True False, New 3, Get 3 Pending]
   \<and> \<not> waits_on_fresh 2 None [NativeSend ''m'' 1 True False, Get 1 Value]"
  using wait_preceded_by_reset [where s = "Socket_init Gevent1 5" and data = "''m''" and flags = 0
          and copy = True and track = False
          and script = "[(Inl (ZMQError EAGAIN None), [Notified]), (Inl (ZMQError EAGAIN None), [])]
                        :: string round list"
          and pre = "[(Inl (ZMQError EAGAIN None), [Notified])]"
          and r = "Inl (ZMQError EAGAIN None)" and evs = "[]" and rest = "[]"]
  by (simp add: send_def dunder_send_def recv_def dunder_recv_def finally_notify_def
        wf_sock_def retry_def
        Socket_init_def setup_events_def AsyncResult_new_def AsyncResult_get_def
        AsyncResult_set_def do_effect_def notify_waiters_def wait_write_def wait_read_def
        NOBLOCK_def EAGAIN_def POLLIN_def POLLOUT_def
        numeral_2_eq_2 numeral_3_eq_3 nth_append)

subsection \<open>The notification before the wait\<close>

text \<open>
  Claim C4, as amended. Inside the send retry loop, after a retry-signal error and
  before the wait begins, the socket resolves both cells with a value, whatever they
  held and whatever the current readiness is, which it does not query; it then replaces
  the writable cell by a new pending one and waits on it. The wait begins in
  the state given here.
\<close>

theorem retry_notifies_both:
  assumes "flags AND NOBLOCK = 0" and "errno e = EAGAIN"
  shows "dunder_send s data flags copy track ((Inl e, evs) # rest) =
           (case await
                   (s\<lparr>heap := (heap s)[writable s := Value, readable s := Value] @ [Pending],
                      writable := length (heap s),
                      trace := trace s @ [NativeSend data (flags OR NOBLOCK) copy track,
                                          New (length (heap s)), Get (length (heap s)) Pending]\<rparr>)
                   (length (heap s)) evs of
              (Woken, s2) \<Rightarrow> send_loop s2 data (flags OR NOBLOCK) copy track rest
            | (WaitRaised exc, s2) \<Rightarrow> (Some (Raised exc), s2)
            | (Blocked, s2) \<Rightarrow> (Some Suspended, s2))"
  using assms
  by (simp add: dunder_send_def wait_write_def AsyncResult_new_def AsyncResult_get_def
        notify_waiters_def AsyncResult_set_def do_effect_def Let_def nth_append)

text \<open>
  A new socket whose first native send answers \<^verbatim>\<open>EAGAIN\<close>, with no event after it:
  the task is suspended, both old cells hold a value, and no query was made.
\<close>

theorem retry_notifies_both_witness:
  "(0::int) AND NOBLOCK = 0 \<and> errno (ZMQError EAGAIN None) = EAGAIN
   \<and> (dunder_send (Socket_init Gevent1 5) ''m'' 0 True False
         [(Inl (ZMQError EAGAIN None), [])] :: string outcome option \<times> sock) =
       (Some Suspended,
        (Socket_init Gevent1 5)
          \<lparr>heap := [Value, Value, Pending], writable := 2,
           trace := trace (Socket_init Gevent1 5)
                    @ [NativeSend ''m'' 1 True False, New 2, Get 2 Pending]\<rparr>)"
  using retry_notifies_both [of 0 "ZMQError EAGAIN None" "Socket_init Gevent1 5" "''m''" True False "[]" "[]"]
  by (simp add: Socket_init_def setup_events_def AsyncResult_new_def do_effect_def NOBLOCK_def
        numeral_2_eq_2)

text \<open>
  Claim C4 as stated fails. With an event mask of 0, neither direction ready, the
  retry of a send on a new socket resolves both pending cells all the same.
\<close>

theorem retry_notifies_both_counterexample:
  "\<not> resolved_only_if_ready 0 (Socket_init Gevent1 5)
       (snd (send (Socket_init Gevent1 5) ''m'' 0 True False
               ([(Inl (ZMQError EAGAIN None), [])] :: string round list)))"
  by (simp add: resolved_only_if_ready_def send_def dunder_send_def finally_notify_def
        Socket_init_def setup_events_def AsyncResult_new_def AsyncResult_get_def
        AsyncResult_set_def do_effect_def notify_waiters_def wait_write_def
        NOBLOCK_def EAGAIN_def POLLIN_def POLLOUT_def)

subsection \<open>The readiness-change handler\<close>

text \<open>
  Claim C5. When the readiness-change handler runs on a closed socket, it stores a value
  in both cells and makes no query. On an open socket it queries the event mask; if the
  query raises, both cells hold that error; otherwise the readable cell gets a value if
  the \<^verbatim>\<open>POLLIN\<close> bit is set and is left as it was if not, and the writable cell
  likewise with \<^verbatim>\<open>POLLOUT\<close>. No other cell changes, and the socket keeps its cells.
\<close>

theorem state_changed_resolves:
  assumes "wf_sock s"
  shows "(closed_flag s \<longrightarrow>
            heap (state_changed s q) = (heap s)[writable s := Value, readable s := Value]
            \<and> trace (state_changed s q) = trace s)
       \<and> (\<not> closed_flag s \<longrightarrow>
            trace (state_changed s q) = trace s @ [NativeGetsockopt EVENTS]
            \<and> (\<forall>exc. q = Inl exc \<longrightarrow>
                  heap (state_changed s q) ! readable s = Exception exc
                  \<and> heap (state_changed s q) ! writable s = Exception exc)
            \<and> (\<forall>events. q = Inr events \<longrightarrow>
                  heap (state_changed s q) ! readable s =
                    (if events AND POLLIN \<noteq> 0 then Value else heap s ! readable s)
                  \<and> heap (state_changed s q) ! writable s =
                    (if events AND POLLOUT \<noteq> 0 then Value else heap s ! writable s)))
       \<and> readable (state_changed s q) = readable s
       \<and> writable (state_changed s q) = writable s
       \<and> closed_flag (state_changed s q) = closed_flag s
       \<and> (\<forall>a. a \<noteq> readable s \<and> a \<noteq> writable s \<longrightarrow> heap (state_changed s q) ! a = heap s ! a)"
  using assms
  by (cases q)
     (auto simp add: wf_sock_def state_changed_def AsyncResult_set_def
        AsyncResult_set_exception_def do_effect_def Let_def)

text \<open>
  A new socket with the read-ready bit, with a failing query, and after close.
\<close>

theorem state_changed_resolves_witness:
  "wf_sock (Socket_init Gevent1 5) \<and> \<not> closed_flag (Socket_init Gevent1 5)
   \<and> heap (state_changed (Socket_init Gevent1 5) (Inr POLLIN)) = [Value, Pending]
   \<and> heap (state_changed (Socket_init Gevent1 5) (Inl (ZMQError 4 None)))
       = [Exception (ZMQError 4 None), Exception (ZMQError 4 None)]
   \<and> wf_sock (close (Socket_init Gevent1 5)) \<and> closed_flag (close (Socket_init Gevent1 5))
   \<and> heap (state_changed (close (Socket_init Gevent1 5)) (Inr 0)) = [Value, Value]"
  using state_changed_resolves [of "Socket_init Gevent1 5" "Inr POLLIN"]
        state_changed_resolves [of "Socket_init Gevent1 5" "Inl (ZMQError 4 None)"]
        state_changed_resolves [of "close (Socket_init Gevent1 5)" "Inr 0"]
  by (simp add: wf_sock_def Socket_init_def setup_events_def AsyncResult_new_def
        AsyncResult_set_def AsyncResult_set_exception_def do_effect_def state_changed_def
        close_def native_close_def watcher_teardown_def POLLIN_def POLLOUT_def)

subsection \<open>Close\<close>

text \<open>
  Claim C6. \<^verbatim>\<open>close\<close> on a socket that is not closed and has a watcher stops the
  watcher (\<^verbatim>\<open>stop\<close>, or \<^verbatim>\<open>cancel\<close> for a watcher of the older gevent) and then
  calls the native close, in this order. On a closed socket it calls the native close
  only and leaves the watcher as it is.
\<close>

theorem close_stops_watcher_first:
  "(\<not> closed_flag s \<and> state_event s = Some w \<longrightarrow>
      trace (close s) =
        trace s @ [case api w of Gevent1 \<Rightarrow> WatcherStop | Gevent0 \<Rightarrow> WatcherCancel, NativeClose]
      \<and> state_event (close s) = Some (w\<lparr>active := False\<rparr>)
      \<and> closed_flag (close s))
   \<and> (closed_flag s \<longrightarrow>
      trace (close s) = trace s @ [NativeClose]
      \<and> state_event (close s) = state_event s
      \<and> closed_flag (close s))"
  by (cases "api w") (auto simp add: close_def native_close_def watcher_teardown_def do_effect_def)

text \<open>
  Closing a new socket under either gevent, and closing it twice.
\<close>

theorem close_stops_watcher_first_witness:
  "\<not> closed_flag (Socket_init Gevent1 5)
   \<and> state_event (Socket_init Gevent1 5) = Some \<lparr>api = Gevent1, watched_fd = 5, active = True\<rparr>
   \<and> trace (close (Socket_init Gevent1 5)) = trace (Socket_init Gevent1 5) @ [WatcherStop, NativeClose]
   \<and> trace (close (Socket_init Gevent0 5)) = trace (Socket_init Gevent0 5) @ [WatcherCancel, NativeClose]
   \<and> closed_flag (close (Socket_init Gevent1 5))
   \<and> trace (close (close (Socket_init Gevent1 5)))
       = trace (Socket_init Gevent1 5) @ [WatcherStop, NativeClose, NativeClose]"
  using close_stops_watcher_first [of "Socket_init Gevent1 5" "\<lparr>api = Gevent1, watched_fd = 5, active = True\<rparr>"]
        close_stops_watcher_first [of "Socket_init Gevent0 5" "\<lparr>api = Gevent0, watched_fd = 5, active = True\<rparr>"]
        close_stops_watcher_first [of "close (Socket_init Gevent1 5)" "\<lparr>api = Gevent1, watched_fd = 5, active = False\<rparr>"]
  by (simp add: Socket_init_def setup_events_def AsyncResult_new_def do_effect_def
        close_def native_close_def watcher_teardown_def)

subsection \<open>The timeout of poll\<close>

text \<open>
  Claim C7, as amended. A timeout of \<^verbatim>\<open>None\<close>, or one whose conversion to an
  integer is negative, becomes \<open>-1\<close>, and the call waits without a limit: as long as
  nothing is ready it is still waiting, it starts no timer, and it returns the events of
  the first poll that finds some. A timeout whose conversion to an integer is 0 makes
  one native poll and returns what that gives (or raises what it raises) without waiting.
\<close>

theorem poll_timeout_normalization:
  "((timeout = None \<or> (\<exists>t. timeout = Some t \<and> py_int t < 0)) \<longrightarrow>
       normalize_timeout timeout = - 1
       \<and> (fst (get_descriptors p) = Inr fds \<longrightarrow>
            fst (poll p timeout tout (nothing_ready n)) = None
            \<and> timer_events (plog (snd (poll p timeout tout (nothing_ready n)))) = timer_events (plog p)
            \<and> (events \<noteq> [] \<longrightarrow>
                 fst (poll p timeout tout (nothing_ready n @ (Inr events, sel) # rest)) =
                   Some (Inr events))))
   \<and> ((\<exists>t. timeout = Some t \<and> py_int t = 0) \<longrightarrow>
       poll p timeout tout ((pr, sel) # rest) =
         (Some (case pr of Inl e \<Rightarrow> Inl (ZMQ e) | Inr found \<Rightarrow> Inr found),
          p_effect (NativePoll 0) p))"
proof (intro conjI impI)
  assume neg: "timeout = None \<or> (\<exists>t. timeout = Some t \<and> py_int t < 0)"
  then show norm: "normalize_timeout timeout = - 1"
    by (auto simp add: normalize_timeout_cases)
  assume gd: "fst (get_descriptors p) = Inr fds"
  have ne: "(- 1 :: int) \<noteq> 0" by simp
  obtain r p2 where l: "poll_loop p (- 1) None (nothing_ready n) = (r, p2)"
    by (cases "poll_loop p (- 1) None (nothing_ready n)")
  from poll_loop_events(1) [OF gd ne, of n] l have r: "r = None" by simp
  from poll_loop_timer_events [of p "- 1" None "nothing_ready n"] l
  have t: "timer_events (plog p2) = timer_events (plog p)" by simp
  show "fst (poll p timeout tout (nothing_ready n)) = None"
    using l r by (simp add: poll_def norm)
  show "timer_events (plog (snd (poll p timeout tout (nothing_ready n)))) = timer_events (plog p)"
    using l r t by (simp add: poll_def norm)
  assume ev: "events \<noteq> []"
  obtain r' p3 where l': "poll_loop p (- 1) None (nothing_ready n @ (Inr events, sel) # rest) = (r', p3)"
    by (cases "poll_loop p (- 1) None (nothing_ready n @ (Inr events, sel) # rest)")
  from poll_loop_events(3) [OF gd ne ev, of n sel rest] l' have "r' = Some (Inr events)" by simp
  then show "fst (poll p timeout tout (nothing_ready n @ (Inr events, sel) # rest)) = Some (Inr events)"
    using l' by (simp add: poll_def norm)
next
  assume "\<exists>t. timeout = Some t \<and> py_int t = 0"
  then have "normalize_timeout timeout = 0"
    by (auto simp add: normalize_timeout_cases)
  then show "poll p timeout tout ((pr, sel) # rest) =
         (Some (case pr of Inl e \<Rightarrow> Inl (ZMQ e) | Inr found \<Rightarrow> Inr found),
          p_effect (NativePoll 0) p)"
    by (rule poll_zero)
qed

text \<open>
  Timeouts of \<open>-5\<close>, \<^verbatim>\<open>None\<close> and \<open>0\<close> on a poller with one descriptor.
\<close>

theorem poll_timeout_normalization_witness:
  "py_int (PyInt (- 5)) < 0
   \<and> fst (get_descriptors \<lparr>sockets = [(IntFd 3, POLLIN)], plog = []\<rparr>) = Inr ([3], [], [])
   \<and> fst (poll \<lparr>sockets = [(IntFd 3, POLLIN)], plog = []\<rparr> (Some (PyInt (- 5))) 7 (nothing_ready 2)) = None
   \<and> fst (poll \<lparr>sockets = [(IntFd 3, POLLIN)], plog = []\<rparr> None 7
            (nothing_ready 2 @ [(Inr [(IntFd 3, POLLIN)], Ready)])) = Some (Inr [(IntFd 3, POLLIN)])
   \<and> py_int (PyInt 0) = 0
   \<and> poll \<lparr>sockets = [(IntFd 3, POLLIN)], plog = []\<rparr> (Some (PyInt 0)) 7 [(Inr [], Ready)]
       = (Some (Inr []), \<lparr>sockets = [(IntFd 3, POLLIN)], plog = [NativePoll 0]\<rparr>)"
  using poll_timeout_normalization [where timeout = "Some (PyInt (- 5))" and n = 2
          and p = "\<lparr>sockets = [(IntFd 3, POLLIN)], plog = []\<rparr>" and fds = "([3], [], [])"
          and tout = 7 and events = "[(IntFd 3, POLLIN)]" and sel = Ready and rest = "[]"
          and pr = "Inr []"]
        poll_timeout_normalization [where timeout = None and n = 2
          and p = "\<lparr>sockets = [(IntFd 3, POLLIN)], plog = []\<rparr>" and fds = "([3], [], [])"
          and tout = 7 and events = "[(IntFd 3, POLLIN)]" and sel = Ready and rest = "[]"
          and pr = "Inr []"]
        poll_timeout_normalization [where timeout = "Some (PyInt 0)" and n = 2
          and p = "\<lparr>sockets = [(IntFd 3, POLLIN)], plog = []\<rparr>" and fds = "([3], [], [])"
          and tout = 7 and events = "[(IntFd 3, POLLIN)]" and sel = Ready and rest = "[]"
          and pr = "Inr []"]
  by (simp add: get_descriptors_def p_effect_def POLLIN_def POLLOUT_def POLLERR_def)

text \<open>
  Claim C7 as stated fails. The timeout \<open>-0.5\<close> is negative, but its conversion to an
  integer is 0: the call returns an empty list after one poll, where a timeout of
  \<open>-1\<close> is still waiting.
\<close>

theorem poll_timeout_normalization_counterexample:
  "(- 1 / 2 :: rat) < 0
   \<and> normalize_timeout (Some (PyFloat (- 1 / 2))) = 0
   \<and> fst (poll \<lparr>sockets = [(IntFd 3, POLLIN)], plog = []\<rparr> (Some (PyFloat (- 1 / 2))) 7
            [(Inr [], Ready)]) = Some (Inr [])
   \<and> fst (poll \<lparr>sockets = [(IntFd 3, POLLIN)], plog = []\<rparr> (Some (PyInt (- 1))) 7
            [(Inr [], Ready)]) = None"
proof -
  have "\<lceil>- (1 / 2) :: rat\<rceil> = 0"
    by (simp add: ceiling_eq_iff)
  then show ?thesis
    by (simp add: normalize_timeout_def poll_def get_descriptors_def p_effect_def POLLIN_def
          POLLOUT_def POLLERR_def Let_def)
qed

subsection \<open>The timer of poll\<close>

text \<open>
  Claim C8. With a timeout whose conversion to an integer is positive and with nothing
  ready, a \<^verbatim>\<open>Timeout\<close> raised in the wait gives an empty list if it is the call's own
  timer, and is raised again if it is another one. Whenever \<^verbatim>\<open>poll\<close> returns or
  raises, the timer calls it made are the start and the cancellation of its own timer,
  the cancellation being its last call, if the timeout was positive, and none otherwise.
\<close>

theorem poll_timer:
  "(0 < normalize_timeout timeout \<and> fst (get_descriptors p) = Inr fds \<longrightarrow>
      fst (poll p timeout tout (nothing_ready n @ (Inr [], TimeoutSignal t) # rest)) =
        Some (if t = tout then Inr [] else Inl (Timeout t)))
   \<and> (poll p timeout tout script = (Some res, p') \<longrightarrow>
        timer_events (plog p') =
          timer_events (plog p)
          @ (if 0 < normalize_timeout timeout
             then [TimerStart tout (of_int (normalize_timeout timeout) / 1000), TimerCancel tout]
             else [])
        \<and> (0 < normalize_timeout timeout \<longrightarrow> last (plog p') = TimerCancel tout))"
proof (intro conjI impI)
  assume a: "0 < normalize_timeout timeout \<and> fst (get_descriptors p) = Inr fds"
  let ?T = "normalize_timeout timeout"
  let ?p1 = "p_effect (TimerStart tout (of_int ?T / 1000)) p"
  let ?script = "nothing_ready n @ (Inr [], TimeoutSignal t) # rest"
  have gd: "fst (get_descriptors ?p1) = Inr fds"
    using a by (simp add: get_descriptors_p_effect)
  have ne: "?T \<noteq> 0" using a by simp
  obtain r p2 where l: "poll_loop ?p1 ?T None ?script = (r, p2)"
    by (cases "poll_loop ?p1 ?T None ?script")
  from poll_loop_events(2) [OF gd ne, of n t rest] l have "r = Some (Inl (Timeout t))" by simp
  then show "fst (poll p timeout tout ?script) = Some (if t = tout then Inr [] else Inl (Timeout t))"
    using a l by (simp add: poll_def Let_def)
next
  assume a: "poll p timeout tout script = (Some res, p')"
  let ?T = "normalize_timeout timeout"
  let ?p1 = "if 0 < ?T then p_effect (TimerStart tout (of_int ?T / 1000)) p else p"
  obtain r p2 where l: "poll_loop ?p1 ?T None script = (r, p2)"
    by (cases "poll_loop ?p1 ?T None script")
  from poll_loop_timer_events [of ?p1 ?T None script] l
  have t: "timer_events (plog p2) = timer_events (plog ?p1)" by simp
  from a l have p': "p' = (if 0 < ?T then p_effect (TimerCancel tout) p2 else p2)"
    by (auto simp add: poll_def Let_def split: option.splits)
  show "timer_events (plog p') =
          timer_events (plog p)
          @ (if 0 < ?T then [TimerStart tout (of_int ?T / 1000), TimerCancel tout] else [])"
    using t by (simp add: p' p_effect_def timer_events_def)
  show "last (plog p') = TimerCancel tout" if "0 < ?T"
    using that by (simp add: p' p_effect_def)
qed

text \<open>
  A timeout of 100 milliseconds that expires, and one interrupted by another timer.
\<close>

theorem poll_timer_witness:
  "0 < normalize_timeout (Some (PyInt 100))
   \<and> fst (get_descriptors \<lparr>sockets = [(IntFd 3, POLLIN)], plog = []\<rparr>) = Inr ([3], [], [])
   \<and> fst (poll \<lparr>sockets = [(IntFd 3, POLLIN)], plog = []\<rparr> (Some (PyInt 100)) 7
            (nothing_ready 1 @ [(Inr [], TimeoutSignal 7)])) = Some (Inr [])
   \<and> fst (poll \<lparr>sockets = [(IntFd 3, POLLIN)], plog = []\<rparr> (Some (PyInt 100)) 7
            (nothing_ready 1 @ [(Inr [], TimeoutSignal 8)])) = Some (Inl (Timeout 8))
   \<and> poll \<lparr>sockets = [(IntFd 3, POLLIN)], plog = []\<rparr> (Some (PyInt 100)) 7 [(Inr [], TimeoutSignal 7)]
       = (Some (Inr []),
          \<lparr>sockets = [(IntFd 3, POLLIN)],
           plog = [TimerStart 7 (1 / 10), NativePoll 0, Select [3] [] [], TimerCancel 7]\<rparr>)
   \<and> timer_events [TimerStart 7 (1 / 10), NativePoll 0, Select [3] [] [], TimerCancel 7]
       = [TimerStart 7 (1 / 10), TimerCancel 7]"
  using poll_timer [where timeout = "Some (PyInt 100)" and tout = 7 and t = 7 and n = 1
          and p = "\<lparr>sockets = [(IntFd 3, POLLIN)], plog = []\<rparr>" and fds = "([3], [], [])"
          and rest = "[]" and script = "[(Inr [], TimeoutSignal 7)]" and res = "Inr []"
          and p' = "\<lparr>sockets = [(IntFd 3, POLLIN)],
                      plog = [TimerStart 7 (1 / 10), NativePoll 0, Select [3] [] [], TimerCancel 7]\<rparr>"]
        poll_timer [where timeout = "Some (PyInt 100)" and tout = 7 and t = 8 and n = 1
          and p = "\<lparr>sockets = [(IntFd 3, POLLIN)], plog = []\<rparr>" and fds = "([3], [], [])"
          and rest = "[]" and script = "[(Inr [], TimeoutSignal 7)]" and res = "Inr []"
          and p' = "\<lparr>sockets = [(IntFd 3, POLLIN)],
                      plog = [TimerStart 7 (1 / 10), NativePoll 0, Select [3] [] [], TimerCancel 7]\<rparr>"]
  by (simp add: normalize_timeout_def poll_def get_descriptors_def p_effect_def timer_events_def
        POLLIN_def POLLOUT_def POLLERR_def Let_def)

subsection \<open>Sockets of a context\<close>



subsection \<open>Fractional timeouts\<close>

text \<open>
  Claim C10. A fractional timeout strictly between 0 and 1 is converted to the integer
  0, so \<^verbatim>\<open>poll\<close> makes one native poll and returns what that gives without waiting
  and without a timer.
\<close>

theorem fractional_timeout_truncates:
  assumes "0 < x" and "x < 1"
  shows "py_int (PyFloat x) = 0
       \<and> normalize_timeout (Some (PyFloat x)) = 0
       \<and> poll p (Some (PyFloat x)) tout ((pr, sel) # rest) =
           (Some (case pr of Inl e \<Rightarrow> Inl (ZMQ e) | Inr events \<Rightarrow> Inr events),
            p_effect (NativePoll 0) p)"
proof -
  have "\<lfloor>x\<rfloor> = 0" using assms by (simp add: floor_eq_iff)
  with assms have i: "py_int (PyFloat x) = 0" by simp
  then have n: "normalize_timeout (Some (PyFloat x)) = 0"
    by (simp add: normalize_timeout_cases)
  from i n poll_zero [OF n] show ?thesis by simp
qed

text \<open>
  A timeout of half a millisecond.
\<close>

theorem fractional_timeout_truncates_witness:
  "(0::rat) < 1 / 2 \<and> (1 / 2 :: rat) < 1
   \<and> poll \<lparr>sockets = [(IntFd 3, POLLIN)], plog = []\<rparr> (Some (PyFloat (1 / 2))) 7 [(Inr [], Ready)]
       = (Some (Inr []), \<lparr>sockets = [(IntFd 3, POLLIN)], plog = [NativePoll 0]\<rparr>)"
  using fractional_timeout_truncates [of "1 / 2" "\<lparr>sockets = [(IntFd 3, POLLIN)], plog = []\<rparr>" 7
          "Inr []" Ready "[]"]
  by (simp add: p_effect_def)

end
